theory Spec2Isabelle
  imports Complex_Main "HOL-Library.AList" "HOL-Library.Sublist"
begin

section \<open>Delta computer (pkg/controller/instance/delta/delta.go)\<close>

subsection \<open>Unstructured content\<close>

text \<open>
  The content of an \<^verbatim>\<open>unstructured.Unstructured\<close> is a Go value of one of the dynamic
  types that \<^verbatim>\<open>DeepCopy\<close> accepts: \<^verbatim>\<open>nil\<close>, \<^verbatim>\<open>bool\<close>, \<^verbatim>\<open>int64\<close>, \<^verbatim>\<open>float64\<close>,
  \<^verbatim>\<open>string\<close>, \<^verbatim>\<open>json.Number\<close>, \<^verbatim>\<open>map[string]interface{}\<close> and \<^verbatim>\<open>[]interface{}\<close>.
  A Go map is an association list here: the order of the list is the order in which
  \<^verbatim>\<open>range\<close> visits the keys (Go leaves it unspecified), a lookup is \<^const>\<open>map_of\<close>.
\<close>

text \<open>
  A \<^verbatim>\<open>float64\<close> is a finite number (given by its value, so that \<open>+0\<close> and \<open>-0\<close>
  coincide, as they do under \<^verbatim>\<open>==\<close>), an infinity or a NaN. Go compares floats by
  IEEE 754: a NaN is different from every float, itself included.
\<close>

datatype float64 = Finite rat | PosInf | NegInf | NaN

definition float64_eq :: "float64 \<Rightarrow> float64 \<Rightarrow> bool" where
  "float64_eq x y = (x \<noteq> NaN \<and> y \<noteq> NaN \<and> x = y)"

datatype jvalue =
    JNil
  | JBool bool
  | JInt int
  | JFloat float64
  | JStr string
  | JNumber string
  | JMap "(string \<times> jvalue) list"
  | JList "jvalue list"

text \<open>
  \<^verbatim>\<open>a == b\<close> on two \<^verbatim>\<open>interface{}\<close> values: the dynamic types agree and the values are
  equal. The walk only compares with a leaf on the left (two maps or two slices would
  make Go panic, and are never compared this way).
\<close>

definition iface_eq :: "jvalue \<Rightarrow> jvalue \<Rightarrow> bool" where
  "iface_eq a b =
     (case a of
        JFloat x \<Rightarrow> (case b of JFloat y \<Rightarrow> float64_eq x y | _ \<Rightarrow> False)
      | _ \<Rightarrow> a = b)"

record Unstructured =
  Object :: "(string \<times> jvalue) list"

text \<open>Keys of a Go map are unique; \<open>wf_jvalue\<close> says so for every map inside a value.\<close>

fun wf_jvalue :: "jvalue \<Rightarrow> bool" where
  "wf_jvalue (JMap kvs) = (distinct (map fst kvs) \<and> (\<forall>kv \<in> set kvs. wf_jvalue (snd kv)))"
| "wf_jvalue (JList vs) = (\<forall>v \<in> set vs. wf_jvalue v)"
| "wf_jvalue v = True"

text \<open>No \<^verbatim>\<open>float64\<close> leaf of the value is a NaN.\<close>

fun nan_free :: "jvalue \<Rightarrow> bool" where
  "nan_free (JFloat x) = (x \<noteq> NaN)"
| "nan_free (JMap kvs) = (\<forall>kv \<in> set kvs. nan_free (snd kv))"
| "nan_free (JList vs) = (\<forall>v \<in> set vs. nan_free v)"
| "nan_free v = True"

record Difference =
  Path :: string
  Desired :: jvalue
  Observed :: jvalue

subsection \<open>Formatting of paths\<close>

text \<open>\<^verbatim>\<open>%d\<close> of a slice index: the decimal digits of a natural number.\<close>

definition digit_char :: "nat \<Rightarrow> char" where
  "digit_char n = char_of (48 + n)"

fun itoa_fuel :: "nat \<Rightarrow> nat \<Rightarrow> string" where
  "itoa_fuel 0 n = []"
| "itoa_fuel (Suc f) n =
     (if n < 10 then [digit_char n]
      else itoa_fuel f (n div 10) @ [digit_char (n mod 10)])"

definition itoa :: "nat \<Rightarrow> string" where
  "itoa n = itoa_fuel (Suc n) n"

subsection \<open>cleanMetadata\<close>

definition fieldsToRemove :: "string list" where
  "fieldsToRemove =
     [''creationTimestamp'', ''deletionTimestamp'', ''generation'', ''resourceVersion'',
      ''selfLink'', ''uid'', ''managedFields'', ''ownerReferences'', ''finalizers'']"

text \<open>
  \<^verbatim>\<open>if m, exists := metadata[key].(map[string]interface{}); exists { if len(m) == 0 { delete(metadata, key) } }\<close>
\<close>

definition dropIfEmptyMap :: "string \<Rightarrow> (string \<times> jvalue) list \<Rightarrow> (string \<times> jvalue) list" where
  "dropIfEmptyMap key metadata =
     (case map_of metadata key of
        Some (JMap m) \<Rightarrow> (if length m = 0 then AList.delete key metadata else metadata)
      | _ \<Rightarrow> metadata)"

definition cleanFields :: "(string \<times> jvalue) list \<Rightarrow> (string \<times> jvalue) list" where
  "cleanFields metadata =
     foldl (\<lambda>m field. AList.delete field m)
       (dropIfEmptyMap ''labels'' (dropIfEmptyMap ''annotations'' metadata))
       fieldsToRemove"

text \<open>
  The function mutates the metadata map in place; the object that holds it sees the
  change, so the model stores the cleaned map back under \<^verbatim>\<open>metadata\<close>.
\<close>

definition cleanMetadata :: "Unstructured \<Rightarrow> Unstructured" where
  "cleanMetadata obj =
     (case map_of (Object obj) ''metadata'' of
        Some (JMap metadata) \<Rightarrow>
          obj\<lparr>Object := AList.update ''metadata'' (JMap (cleanFields metadata)) (Object obj)\<rparr>
      | _ \<Rightarrow> obj)"

subsection \<open>The walk\<close>

text \<open>
  \<^verbatim>\<open>differences *[]Difference\<close> is only ever appended to: each function takes the
  slice built so far and returns the extended one.
\<close>

function (sequential)
    walkCompare :: "jvalue \<Rightarrow> jvalue \<Rightarrow> string \<Rightarrow> Difference list \<Rightarrow> Difference list"
and walkMap :: "(string \<times> jvalue) list \<Rightarrow> (string \<times> jvalue) list \<Rightarrow> string
                 \<Rightarrow> Difference list \<Rightarrow> Difference list"
and walkSlice :: "jvalue list \<Rightarrow> jvalue list \<Rightarrow> string \<Rightarrow> Difference list \<Rightarrow> Difference list"
and walkSlice_loop :: "nat \<Rightarrow> jvalue list \<Rightarrow> jvalue list \<Rightarrow> string
                 \<Rightarrow> Difference list \<Rightarrow> Difference list"
where
  "walkCompare desired observed path differences =
     (case desired of
        JMap d \<Rightarrow>
          (case observed of
             JMap e \<Rightarrow> walkMap d e path differences
           | _ \<Rightarrow> differences @ [\<lparr>Path = path, Desired = desired, Observed = observed\<rparr>])
      | JList d \<Rightarrow>
          (case observed of
             JList e \<Rightarrow> walkSlice d e path differences
           | _ \<Rightarrow> differences @ [\<lparr>Path = path, Desired = desired, Observed = observed\<rparr>])
      | _ \<Rightarrow>
          (if \<not> iface_eq desired observed
           then differences @ [\<lparr>Path = path, Desired = desired, Observed = observed\<rparr>]
           else differences))"
| "walkMap [] observed path differences = differences"
| "walkMap (kv # rest) observed path differences =
     (let k = fst kv; desiredVal = snd kv;
          newPath = (if path \<noteq> [] then path @ ''.'' @ k else k) in
      case map_of observed k of
        None \<Rightarrow>
          (if desiredVal \<noteq> JNil
           then walkMap rest observed path
                  (differences @ [\<lparr>Path = newPath, Desired = desiredVal, Observed = JNil\<rparr>])
           else walkMap rest observed path (walkCompare desiredVal JNil newPath differences))
      | Some observedVal \<Rightarrow>
          walkMap rest observed path (walkCompare desiredVal observedVal newPath differences))"
| "walkSlice desired observed path differences =
     (if length desired \<noteq> length observed
      then differences @ [\<lparr>Path = path, Desired = JList desired, Observed = JList observed\<rparr>]
      else walkSlice_loop 0 desired observed path differences)"
| "walkSlice_loop i [] observed path differences = differences"
| "walkSlice_loop i (d # ds) observed path differences =
     (case observed of
        [] \<Rightarrow> differences
      | e # es \<Rightarrow>
          walkSlice_loop (Suc i) ds es path
            (walkCompare d e (path @ ''['' @ itoa i @ '']'') differences))"
  by pat_completeness auto
termination
  by (relation "measure (\<lambda>x. case x of
        Inl (Inl (d, _)) \<Rightarrow> 2 * size d + 2
      | Inl (Inr (d, _)) \<Rightarrow> 2 * size (JMap d)
      | Inr (Inl (d, _)) \<Rightarrow> 2 * size (JList d) + 1
      | Inr (Inr (_, d, _)) \<Rightarrow> 2 * size (JList d))") auto

declare walkCompare.simps [simp del]

text \<open>One iteration of the loop of \<^verbatim>\<open>walkMap\<close>, for the entry \<open>kv\<close> of the desired map.\<close>

definition walkMap_body :: "string \<times> jvalue \<Rightarrow> (string \<times> jvalue) list \<Rightarrow> string
                 \<Rightarrow> Difference list \<Rightarrow> Difference list" where
  "walkMap_body kv observed path differences =
     (let k = fst kv; desiredVal = snd kv;
          newPath = (if path \<noteq> [] then path @ ''.'' @ k else k) in
      case map_of observed k of
        None \<Rightarrow>
          (if desiredVal \<noteq> JNil
           then differences @ [\<lparr>Path = newPath, Desired = desiredVal, Observed = JNil\<rparr>]
           else walkCompare desiredVal JNil newPath differences)
      | Some observedVal \<Rightarrow> walkCompare desiredVal observedVal newPath differences)"

subsection \<open>Compare\<close>

text \<open>
  \<^verbatim>\<open>DeepCopy\<close> (apimachinery) returns a copy that shares no map or slice with its
  argument. Values are immutable here, so the copy is the value itself.
\<close>

definition DeepCopy :: "Unstructured \<Rightarrow> Unstructured" where
  "DeepCopy obj = obj"

text \<open>The second component is the \<^verbatim>\<open>error\<close> result, which is always \<^verbatim>\<open>nil\<close>.\<close>

definition Compare :: "Unstructured \<Rightarrow> Unstructured \<Rightarrow> Difference list \<times> string option" where
  "Compare desired observed =
     (let desiredCopy = cleanMetadata (DeepCopy desired);
          observedCopy = cleanMetadata (DeepCopy observed);
          differences = walkCompare (JMap (Object desiredCopy)) (JMap (Object observedCopy)) [] []
      in (differences, None))"

subsection \<open>Sample objects\<close>

text \<open>A desired ConfigMap, and the same object as the API server returns it.\<close>

definition sample_object :: Unstructured where
  "sample_object = \<lparr>Object =
     [(''apiVersion'', JStr ''v1''), (''kind'', JStr ''ConfigMap''),
      (''metadata'', JMap [(''name'', JStr ''m-a''), (''uid'', JStr ''1234''),
                          (''labels'', JMap []), (''finalizers'', JList [JStr ''kro.run/finalizer''])]),
      (''data'', JMap [(''key'', JStr ''a''), (''n'', JInt 3), (''none'', JNil)]),
      (''items'', JList [JInt 1, JMap [(''x'', JBool True)], JFloat (Finite (1/2))])]\<rparr>"

text \<open>An object with a NaN leaf: \<^verbatim>\<open>{"spec": {"f": NaN}}\<close>.\<close>

definition nan_object :: Unstructured where
  "nan_object = \<lparr>Object = [(''spec'', JMap [(''f'', JFloat NaN)])]\<rparr>"

definition sample_observed :: Unstructured where
  "sample_observed = \<lparr>Object =
     [(''apiVersion'', JStr ''v1''), (''kind'', JStr ''ConfigMap''),
      (''metadata'', JMap [(''name'', JStr ''m-a''), (''resourceVersion'', JStr ''7''),
                          (''annotations'', JMap [])]),
      (''data'', JMap [(''key'', JStr ''b''), (''n'', JInt 3), (''extra'', JStr ''x'')]),
      (''items'', JList [JInt 1, JMap [(''x'', JBool True), (''y'', JNil)], JFloat (Finite (1/2))]),
      (''status'', JMap [(''phase'', JStr ''Bound'')])]\<rparr>"


section \<open>DAG library (pkg/graph/dag)\<close>

text \<open>
  Modelled from the spec: the package \<^verbatim>\<open>graph/dag\<close>, which the schema compiler calls and
  which is not among the source files. The spec (4.5): ``Generic DAG over a comparable
  vertex type. Operations: add-vertex(v, priority), add-edge(from\<rightarrow>to), detect cycles
  (return the shortest cycle found), topological sort respecting priority as secondary
  ordering key. Cycle errors carry the full offending vertex list.'' The operations have
  the names and results that \<^verbatim>\<open>loadCustomTypes\<close> uses: \<^verbatim>\<open>AddVertex\<close>,
  \<^verbatim>\<open>AddDependencies\<close> (which reports a \<^verbatim>\<open>CycleError\<close>) and \<^verbatim>\<open>TopologicalSort\<close>.

  A graph is the list of its vertices with their priorities, in the order in which they
  were added, and the list of its edges: \<open>(v, w)\<close> says that \<open>v\<close> depends on \<open>w\<close>.
\<close>

record 'v dag =
  Vertices :: "('v \<times> int) list"
  Edges :: "('v \<times> 'v) list"

datatype 'v dag_error =
    VertexExists 'v
  | VertexMissing 'v
  | CycleError "'v list"

definition NewDirectedAcyclicGraph :: "'v dag" where
  "NewDirectedAcyclicGraph = \<lparr>Vertices = [], Edges = []\<rparr>"

definition AddVertex :: "'v dag \<Rightarrow> 'v \<Rightarrow> int \<Rightarrow> 'v dag_error + 'v dag" where
  "AddVertex g v priority =
     (if v \<in> fst ` set (Vertices g) then Inl (VertexExists v)
      else Inr (g\<lparr>Vertices := Vertices g @ [(v, priority)]\<rparr>))"

definition dependencies :: "'v dag \<Rightarrow> 'v \<Rightarrow> 'v list" where
  "dependencies g v = map snd (filter (\<lambda>e. fst e = v) (Edges g))"

text \<open>A vertex can be placed when all the vertices it depends on have been placed.\<close>

definition ready :: "'v dag \<Rightarrow> 'v list \<Rightarrow> 'v \<Rightarrow> bool" where
  "ready g placed v = list_all (\<lambda>w. w \<in> set placed) (dependencies g v)"

text \<open>
  The sort: among the vertices that can be placed, the one of least priority (the one
  added first, among equals) comes next. When vertices remain and none can be placed,
  the graph has a cycle; the error carries the vertices that cannot be ordered.
\<close>

function order_from :: "'v dag \<Rightarrow> ('v \<times> int) list \<Rightarrow> 'v list \<Rightarrow> 'v dag_error + 'v list" where
  "order_from g remaining placed =
     (case filter (\<lambda>vp. ready g placed (fst vp)) remaining of
        [] \<Rightarrow> if remaining = [] then Inr placed else Inl (CycleError (map fst remaining))
      | r # rs \<Rightarrow>
          (let chosen = arg_min_list snd (r # rs)
           in order_from g (remove1 chosen remaining) (placed @ [fst chosen])))"
  by pat_completeness auto
termination
proof (relation "measure (\<lambda>(g, remaining, placed). length remaining)")
  show "wf (measure (\<lambda>(g, remaining, placed). length remaining))" by simp
next
  fix g :: "'v dag" and remaining :: "('v \<times> int) list" and placed :: "'v list"
    and r rs chosen
  assume f: "filter (\<lambda>vp. ready g placed (fst vp)) remaining = r # rs"
    and n: "chosen = arg_min_list snd (r # rs)"
  have "chosen \<in> set (r # rs)" unfolding n by (rule arg_min_list_in) simp
  then have "chosen \<in> set remaining" using f by (metis filter_is_subset subsetD)
  then have "length (remove1 chosen remaining) < length remaining"
    using length_pos_if_in_set [of chosen remaining] by (simp add: length_remove1)
  then show "((g, remove1 chosen remaining, placed @ [fst chosen]), (g, remaining, placed))
               \<in> measure (\<lambda>(g, remaining, placed). length remaining)"
    by simp
qed

declare order_from.simps [simp del]

definition TopologicalSort :: "'v dag \<Rightarrow> 'v dag_error + 'v list" where
  "TopologicalSort g = order_from g (Vertices g) []"

text \<open>
  \<^verbatim>\<open>AddDependencies\<close>: the vertex and the vertices it depends on must be in the graph;
  the edges are added, and the call fails with a \<^verbatim>\<open>CycleError\<close> when the graph then has a
  cycle.
\<close>

definition AddDependencies :: "'v dag \<Rightarrow> 'v \<Rightarrow> 'v list \<Rightarrow> 'v dag_error + 'v dag" where
  "AddDependencies g v deps =
     (if v \<notin> fst ` set (Vertices g) then Inl (VertexMissing v)
      else case filter (\<lambda>w. w \<notin> fst ` set (Vertices g)) deps of
             w # ws \<Rightarrow> Inl (VertexMissing w)
           | [] \<Rightarrow>
               (let g' = g\<lparr>Edges := Edges g @ map (\<lambda>w. (v, w)) deps\<rparr>
                in case TopologicalSort g' of
                     Inl e \<Rightarrow> Inl e
                   | Inr order \<Rightarrow> Inr g'))"

text \<open>
  \<open>topo_ordered E order\<close>: in the list \<open>order\<close>, every vertex comes after all the vertices
  it depends on by an edge of \<open>E\<close>.
\<close>

definition topo_ordered :: "('v \<times> 'v) set \<Rightarrow> 'v list \<Rightarrow> bool" where
  "topo_ordered E order \<longleftrightarrow>
     (\<forall>i < length order. \<forall>w. (order ! i, w) \<in> E \<longrightarrow> w \<in> set (take i order))"

text \<open>
  \<open>cycle_free_on E P\<close>: the set \<open>P\<close> of vertices is closed under the edges of \<open>E\<close> and none
  of its vertices lies on a cycle.
\<close>

definition cycle_free_on :: "('v \<times> 'v) set \<Rightarrow> 'v set \<Rightarrow> bool" where
  "cycle_free_on E P \<longleftrightarrow>
     (\<forall>v \<in> P. \<forall>w. (v, w) \<in> E \<longrightarrow> w \<in> P) \<and> (\<forall>v \<in> P. (v, v) \<notin> E\<^sup>+)"
section \<open>Schema compiler (pkg/simpleschema)\<close>

subsection \<open>Markers and schemas\<close>

datatype MarkerType =
    MarkerTypeRequired
  | MarkerTypeDefault
  | MarkerTypeDescription
  | MarkerTypeMinimum
  | MarkerTypeMaximum
  | MarkerTypeValidation
  | MarkerTypeEnum
  | MarkerTypeImmutable
  | MarkerTypePattern
  | MarkerTypeUniqueItems
  | MarkerTypeMinLength
  | MarkerTypeMaxLength
  | MarkerTypeMinItems
  | MarkerTypeMaxItems

record Marker =
  MarkerType :: MarkerType
  Key :: string
  Value :: string

record ValidationRule =
  Rule :: string
  Message :: string

text \<open>
  \<^verbatim>\<open>extv1.JSONSchemaProps\<close>, with the fields that the schema compiler reads or writes.
  The struct is recursive through \<^verbatim>\<open>Properties\<close>; its other fields form the record
  \<open>SchemaFields\<close>. A pointer field is an option, \<^verbatim>\<open>extv1.JSON\<close> is its raw text.
\<close>

record SchemaFields =
  Type :: string
  Default :: "string option"
  Description :: string
  Minimum :: "float64 option"
  Maximum :: "float64 option"
  XValidations :: "ValidationRule list"
  Enum :: "string list"
  MinLength :: "int option"
  MaxLength :: "int option"
  Pattern :: string
  XListType :: "string option"
  MinItems :: "int option"
  MaxItems :: "int option"
  Required :: "string list"

datatype JSONSchemaProps =
  JSONSchemaProps (props: SchemaFields) (Properties: "(string \<times> JSONSchemaProps) list")

definition upd :: "(SchemaFields \<Rightarrow> SchemaFields) \<Rightarrow> JSONSchemaProps \<Rightarrow> JSONSchemaProps" where
  "upd f s = JSONSchemaProps (f (props s)) (Properties s)"

text \<open>\<^verbatim>\<open>&extv1.JSONSchemaProps{}\<close>: every field at its zero value.\<close>

definition emptyFields :: SchemaFields where
  "emptyFields = \<lparr>Type = [], Default = None, Description = [], Minimum = None, Maximum = None,
     XValidations = [], Enum = [], MinLength = None, MaxLength = None, Pattern = [],
     XListType = None, MinItems = None, MaxItems = None, Required = []\<rparr>"

definition emptySchema :: JSONSchemaProps where
  "emptySchema = JSONSchemaProps emptyFields []"

text \<open>
  Errors. A failed conversion or an empty or ill-formed value of a marker is a
  \<open>MarkerValueError\<close>; a marker on a schema of the wrong type is a \<open>MarkerScopeError\<close>
  (it carries the type found); \<open>PackageError\<close> is an error returned by a function of
  another package, \<open>DagFailure\<close> an error of the DAG library returned as it is. The
  others wrap an error with the name of a field or of a custom type: \<^verbatim>\<open>field %s: %w\<close>,
  \<^verbatim>\<open>parsing type %s: %w\<close>, \<^verbatim>\<open>cyclic dependency in type %s: %w\<close>,
  \<^verbatim>\<open>resolving type order: %w\<close>, \<^verbatim>\<open>building schema for %s: %w\<close> and
  \<^verbatim>\<open>applying markers for %s: %w\<close>. \<open>NilType\<close> is the panic of a method call on a
  \<^verbatim>\<open>nil\<close> type.
\<close>

datatype error =
    MarkerValueError MarkerType
  | MarkerScopeError MarkerType string
  | UnexpectedType
  | PackageError string
  | DagFailure "string dag_error"
  | FieldError string error
  | ParsingType string error
  | CyclicDependency string "string dag_error"
  | ResolvingTypeOrder "string dag_error"
  | BuildingSchema string error
  | ApplyingMarkers string error
  | NilType

text \<open>
  The functions of the Go standard library that \<^verbatim>\<open>applyMarkers\<close> calls are parameters:
  \<^verbatim>\<open>strconv.ParseBool\<close>, \<^verbatim>\<open>strconv.ParseFloat(s, 64)\<close>, \<^verbatim>\<open>strconv.ParseInt(s, 10, 64)\<close>
  (\<open>None\<close> when they return an error), \<^verbatim>\<open>regexp.Compile\<close> (whether it succeeds),
  \<^verbatim>\<open>strings.TrimSpace\<close>, \<^verbatim>\<open>strings.Split(s, ",")\<close> and the verb \<^verbatim>\<open>%q\<close> of \<^verbatim>\<open>fmt\<close>.
\<close>

record golib =
  ParseBool :: "string \<Rightarrow> bool option"
  ParseFloat :: "string \<Rightarrow> float64 option"
  ParseInt :: "string \<Rightarrow> int option"
  regexpCompile :: "string \<Rightarrow> bool"
  TrimSpace :: "string \<Rightarrow> string"
  SplitComma :: "string \<Rightarrow> string list"
  Quote :: "string \<Rightarrow> string"

subsection \<open>applyMarkers\<close>

text \<open>The loop over the values of an \<^verbatim>\<open>enum\<close> marker; \<open>ty\<close> is \<^verbatim>\<open>schema.Type\<close>.\<close>

fun enumValues :: "golib \<Rightarrow> string \<Rightarrow> string list \<Rightarrow> string list \<Rightarrow> error + string list" where
  "enumValues lib ty [] enumJSONValues = Inr enumJSONValues"
| "enumValues lib ty (v # vs) enumJSONValues =
     (let val = TrimSpace lib v in
      if val = [] then Inl (MarkerValueError MarkerTypeEnum)
      else if ty = ''string'' then enumValues lib ty vs (enumJSONValues @ [Quote lib val])
      else if ty = ''integer'' then
        (case ParseInt lib val of
           None \<Rightarrow> Inl (MarkerValueError MarkerTypeEnum)
         | Some n \<Rightarrow> enumValues lib ty vs (enumJSONValues @ [val]))
      else Inl (MarkerScopeError MarkerTypeEnum ty))"

text \<open>
  An integer-valued marker that is only valid on schemas of type \<open>ty\<close>: the type is
  checked first, then the value is parsed.
\<close>

definition intMarker :: "golib \<Rightarrow> MarkerType \<Rightarrow> string \<Rightarrow> string \<Rightarrow> JSONSchemaProps
    \<Rightarrow> (int \<Rightarrow> SchemaFields \<Rightarrow> SchemaFields) \<Rightarrow> error + JSONSchemaProps" where
  "intMarker lib mt ty v schema assign =
     (if Type (props schema) \<noteq> ty then Inl (MarkerScopeError mt (Type (props schema)))
      else case ParseInt lib v of
             None \<Rightarrow> Inl (MarkerValueError mt)
           | Some val \<Rightarrow> Inr (upd (assign val) schema))"

text \<open>
  One iteration of the loop of \<^verbatim>\<open>applyMarkers\<close>: the case of the \<^verbatim>\<open>switch\<close> for the
  marker, on the schema and the parent schema, both of which the code mutates.
\<close>

definition applyMarker :: "golib \<Rightarrow> Marker \<Rightarrow> string \<Rightarrow> JSONSchemaProps \<times> JSONSchemaProps
    \<Rightarrow> error + (JSONSchemaProps \<times> JSONSchemaProps)" where
  "applyMarker lib marker key sp =
     (let schema = fst sp; parentSchema = snd sp; v = Value marker in
      case MarkerType marker of
        MarkerTypeRequired \<Rightarrow>
          (case ParseBool lib v of
             None \<Rightarrow> Inl (MarkerValueError MarkerTypeRequired)
           | Some isRequired \<Rightarrow>
               Inr (schema,
                    if isRequired
                    then upd (\<lambda>f. f\<lparr>Required := Required f @ [key]\<rparr>) parentSchema
                    else parentSchema))
      | MarkerTypeDefault \<Rightarrow>
          (let defaultValue =
                 (if Type (props schema) = ''string''
                  then [CHR 0x22] @ v @ [CHR 0x22] else v)
           in Inr (upd (\<lambda>f. f\<lparr>Default := Some defaultValue\<rparr>) schema, parentSchema))
      | MarkerTypeDescription \<Rightarrow>
          Inr (upd (\<lambda>f. f\<lparr>Description := v\<rparr>) schema, parentSchema)
      | MarkerTypeMinimum \<Rightarrow>
          (case ParseFloat lib v of
             None \<Rightarrow> Inl (MarkerValueError MarkerTypeMinimum)
           | Some val \<Rightarrow> Inr (upd (\<lambda>f. f\<lparr>Minimum := Some val\<rparr>) schema, parentSchema))
      | MarkerTypeMaximum \<Rightarrow>
          (case ParseFloat lib v of
             None \<Rightarrow> Inl (MarkerValueError MarkerTypeMaximum)
           | Some val \<Rightarrow> Inr (upd (\<lambda>f. f\<lparr>Maximum := Some val\<rparr>) schema, parentSchema))
      | MarkerTypeValidation \<Rightarrow>
          (if TrimSpace lib v = [] then Inl (MarkerValueError MarkerTypeValidation)
           else Inr (upd (\<lambda>f. f\<lparr>XValidations :=
                            [\<lparr>Rule = v, Message = ''validation failed''\<rparr>]\<rparr>) schema,
                     parentSchema))
      | MarkerTypeImmutable \<Rightarrow>
          (case ParseBool lib v of
             None \<Rightarrow> Inl (MarkerValueError MarkerTypeImmutable)
           | Some isImmutable \<Rightarrow>
               Inr (if isImmutable
                    then upd (\<lambda>f. f\<lparr>XValidations := XValidations f @
                            [\<lparr>Rule = ''self == oldSelf'', Message = ''field is immutable''\<rparr>]\<rparr>)
                           schema
                    else schema,
                    parentSchema))
      | MarkerTypeEnum \<Rightarrow>
          (case enumValues lib (Type (props schema)) (SplitComma lib v) [] of
             Inl e \<Rightarrow> Inl e
           | Inr enumJSONValues \<Rightarrow>
               Inr (if length enumJSONValues > 0
                    then upd (\<lambda>f. f\<lparr>Enum := enumJSONValues\<rparr>) schema else schema,
                    parentSchema))
      | MarkerTypeMinLength \<Rightarrow>
          (case intMarker lib MarkerTypeMinLength ''string'' v schema
                  (\<lambda>val f. f\<lparr>MinLength := Some val\<rparr>) of
             Inl e \<Rightarrow> Inl e | Inr s \<Rightarrow> Inr (s, parentSchema))
      | MarkerTypeMaxLength \<Rightarrow>
          (case intMarker lib MarkerTypeMaxLength ''string'' v schema
                  (\<lambda>val f. f\<lparr>MaxLength := Some val\<rparr>) of
             Inl e \<Rightarrow> Inl e | Inr s \<Rightarrow> Inr (s, parentSchema))
      | MarkerTypePattern \<Rightarrow>
          (if v = [] then Inl (MarkerValueError MarkerTypePattern)
           else if Type (props schema) \<noteq> ''string''
             then Inl (MarkerScopeError MarkerTypePattern (Type (props schema)))
           else if \<not> regexpCompile lib v then Inl (MarkerValueError MarkerTypePattern)
           else Inr (upd (\<lambda>f. f\<lparr>Pattern := v\<rparr>) schema, parentSchema))
      | MarkerTypeUniqueItems \<Rightarrow>
          (case ParseBool lib v of
             None \<Rightarrow> Inl (MarkerValueError MarkerTypeUniqueItems)
           | Some isUnique \<Rightarrow>
               if Type (props schema) \<noteq> ''array''
               then Inl (MarkerScopeError MarkerTypeUniqueItems (Type (props schema)))
               else Inr (if isUnique
                         then upd (\<lambda>f. f\<lparr>XListType := Some ''set''\<rparr>) schema else schema,
                         parentSchema))
      | MarkerTypeMinItems \<Rightarrow>
          (case intMarker lib MarkerTypeMinItems ''array'' v schema
                  (\<lambda>val f. f\<lparr>MinItems := Some val\<rparr>) of
             Inl e \<Rightarrow> Inl e | Inr s \<Rightarrow> Inr (s, parentSchema))
      | MarkerTypeMaxItems \<Rightarrow>
          (case intMarker lib MarkerTypeMaxItems ''array'' v schema
                  (\<lambda>val f. f\<lparr>MaxItems := Some val\<rparr>) of
             Inl e \<Rightarrow> Inl e | Inr s \<Rightarrow> Inr (s, parentSchema)))"

text \<open>The loop: markers are applied in order, the first error is returned.\<close>

fun applyMarkers :: "golib \<Rightarrow> JSONSchemaProps \<times> JSONSchemaProps \<Rightarrow> Marker list \<Rightarrow> string
    \<Rightarrow> error + (JSONSchemaProps \<times> JSONSchemaProps)" where
  "applyMarkers lib sp [] key = Inr sp"
| "applyMarkers lib sp (marker # markers) key =
     (case applyMarker lib marker key sp of
        Inl e \<Rightarrow> Inl e
      | Inr sp' \<Rightarrow> applyMarkers lib sp' markers key)"

subsection \<open>The transformer\<close>

text \<open>
  The package \<^verbatim>\<open>simpleschema/types\<close> and the parser of a field string are parameters:
  \<open>'ty\<close> is \<^verbatim>\<open>types.Type\<close>, \<open>ParseField\<close> and \<open>parseSpec\<close> return the type and the markers
  of a field string or of a custom type specification, \<open>Schema\<close> is \<^verbatim>\<open>Type.Schema\<close> (it
  is given the resolver of custom type names), \<open>Deps\<close> is \<^verbatim>\<open>Type.Deps\<close> and \<open>asCustom\<close>
  is the type assertion \<^verbatim>\<open>typ.(types.Custom)\<close>.
\<close>

record 'ty typespkg =
  ParseField :: "string \<Rightarrow> error + ('ty \<times> Marker list)"
  parseSpec :: "jvalue \<Rightarrow> error + ('ty \<times> Marker list)"
  Schema :: "'ty \<Rightarrow> (string \<Rightarrow> error + JSONSchemaProps) \<Rightarrow> error + JSONSchemaProps"
  Deps :: "'ty \<Rightarrow> string list"
  asCustom :: "'ty \<Rightarrow> string option"

record customType =
  ctSchema :: JSONSchemaProps
  ctRequired :: bool

record transformer =
  customTypes :: "(string \<times> customType) list"

definition Resolve :: "transformer \<Rightarrow> string \<Rightarrow> error + JSONSchemaProps" where
  "Resolve t name =
     (case map_of (customTypes t) name of
        None \<Rightarrow> Inl (PackageError ''unknown type'')
      | Some ct \<Rightarrow> Inr (ctSchema ct))"

definition IsRequired :: "transformer \<Rightarrow> string \<Rightarrow> bool" where
  "IsRequired t name =
     (case map_of (customTypes t) name of
        None \<Rightarrow> False
      | Some ct \<Rightarrow> ctRequired ct)"

text \<open>
  \<^verbatim>\<open>buildFieldFromString\<close> returns the schema of the field; it also appends to the
  \<^verbatim>\<open>Required\<close> list of the parent, so the model returns the parent as well.
\<close>

definition buildFieldFromString :: "'ty typespkg \<Rightarrow> golib \<Rightarrow> transformer \<Rightarrow> string \<Rightarrow> string
    \<Rightarrow> JSONSchemaProps \<Rightarrow> error + (JSONSchemaProps \<times> JSONSchemaProps)" where
  "buildFieldFromString T lib t name fieldValue parent =
     (case ParseField T fieldValue of
        Inl e \<Rightarrow> Inl e
      | Inr tm \<Rightarrow>
          (let typ = fst tm; markers = snd tm in
           case Schema T typ (Resolve t) of
             Inl e \<Rightarrow> Inl e
           | Inr schema \<Rightarrow>
               (let parent' =
                      (case asCustom T typ of
                         Some custom \<Rightarrow>
                           if IsRequired t custom
                           then upd (\<lambda>f. f\<lparr>Required := Required f @ [name]\<rparr>) parent
                           else parent
                       | None \<Rightarrow> parent)
                in applyMarkers lib (schema, parent') markers name)))"

text \<open>
  \<^verbatim>\<open>buildSchema\<close> and \<^verbatim>\<open>buildFieldSchema\<close> call each other; \<open>buildSchema_loop\<close> is the
  loop over the fields of the specification, with the schema built so far and the flag
  \<^verbatim>\<open>childHasDefault\<close>. A specification is a \<^verbatim>\<open>map[string]interface{}\<close>, as the
  content of an object is.
\<close>

function (sequential)
    buildSchema :: "'ty typespkg \<Rightarrow> golib \<Rightarrow> transformer \<Rightarrow> (string \<times> jvalue) list
        \<Rightarrow> error + JSONSchemaProps"
and buildSchema_loop :: "'ty typespkg \<Rightarrow> golib \<Rightarrow> transformer \<Rightarrow> (string \<times> jvalue) list
        \<Rightarrow> JSONSchemaProps \<Rightarrow> bool \<Rightarrow> error + JSONSchemaProps"
and buildFieldSchema :: "'ty typespkg \<Rightarrow> golib \<Rightarrow> transformer \<Rightarrow> string \<Rightarrow> jvalue
        \<Rightarrow> JSONSchemaProps \<Rightarrow> error + (JSONSchemaProps \<times> JSONSchemaProps)"
where
  "buildSchema T lib t spec =
     buildSchema_loop T lib t spec
       (JSONSchemaProps (emptyFields\<lparr>Type := ''object''\<rparr>) []) False"
| "buildSchema_loop T lib t [] schema childHasDefault =
     Inr (if childHasDefault
          then upd (\<lambda>f. f\<lparr>Default := Some ''{}''\<rparr>) schema
          else schema)"
| "buildSchema_loop T lib t (field # rest) schema childHasDefault =
     (case buildFieldSchema T lib t (fst field) (snd field) schema of
        Inl e \<Rightarrow> Inl (FieldError (fst field) e)
      | Inr fp \<Rightarrow>
          (let fieldSchema = fst fp; schema' = snd fp in
           buildSchema_loop T lib t rest
             (JSONSchemaProps (props schema')
                (AList.update (fst field) fieldSchema (Properties schema')))
             (if Default (props fieldSchema) \<noteq> None then True else childHasDefault)))"
| "buildFieldSchema T lib t name spec parent =
     (case spec of
        JStr val \<Rightarrow> buildFieldFromString T lib t name val parent
      | JMap val \<Rightarrow>
          (case buildSchema T lib t val of
             Inl e \<Rightarrow> Inl e
           | Inr schema \<Rightarrow> Inr (schema, parent))
      | _ \<Rightarrow> Inl UnexpectedType)"
  by pat_completeness auto
termination
  by (relation "measure (\<lambda>x. case x of
        Inl (_, _, _, spec) \<Rightarrow> 2 * size (JMap spec) + 1
      | Inr (Inl (_, _, _, spec, _)) \<Rightarrow> 2 * size (JMap spec)
      | Inr (Inr (_, _, _, _, spec, _)) \<Rightarrow> 2 * size spec + 2)") auto

declare buildFieldSchema.simps [simp del]

subsection \<open>loadCustomTypes\<close>

text \<open>
  The first loop: every specification of the \<^verbatim>\<open>types:\<close> map is parsed; the result holds,
  for each name, the type and the markers (the maps \<^verbatim>\<open>parsed\<close> and \<^verbatim>\<open>markers\<close>).
\<close>

fun parseTypes :: "'ty typespkg \<Rightarrow> (string \<times> jvalue) list
    \<Rightarrow> error + (string \<times> ('ty \<times> Marker list)) list" where
  "parseTypes T [] = Inr []"
| "parseTypes T (entry # rest) =
     (case parseSpec T (snd entry) of
        Inl e \<Rightarrow> Inl (ParsingType (fst entry) e)
      | Inr tm \<Rightarrow>
          (case parseTypes T rest of
             Inl e \<Rightarrow> Inl e
           | Inr parsed \<Rightarrow> Inr (AList.update (fst entry) tm parsed)))"

text \<open>The second loop: a vertex of priority 0 for each name.\<close>

fun addVertices :: "string dag \<Rightarrow> string list \<Rightarrow> error + string dag" where
  "addVertices g [] = Inr g"
| "addVertices g (name # names) =
     (case AddVertex g name 0 of
        Inl e \<Rightarrow> Inl (DagFailure e)
      | Inr g' \<Rightarrow> addVertices g' names)"

text \<open>
  The third loop: the dependencies of each type. A \<^verbatim>\<open>CycleError\<close> is wrapped, another
  error is returned as it is. The loop visits the keys of \<^verbatim>\<open>parsed\<close>, so a name that is
  not one of them is not visited.
\<close>

fun addDependencies :: "'ty typespkg \<Rightarrow> (string \<times> ('ty \<times> Marker list)) list \<Rightarrow> string dag
    \<Rightarrow> string list \<Rightarrow> error + string dag" where
  "addDependencies T parsed g [] = Inr g"
| "addDependencies T parsed g (name # names) =
     (case map_of parsed name of
        None \<Rightarrow> addDependencies T parsed g names
      | Some tm \<Rightarrow>
          (case AddDependencies g name (Deps T (fst tm)) of
             Inl (CycleError c) \<Rightarrow> Inl (CyclicDependency name (CycleError c))
           | Inl e \<Rightarrow> Inl (DagFailure e)
           | Inr g' \<Rightarrow> addDependencies T parsed g' names))"

text \<open>
  The order in which the types are resolved. Go visits the keys of a map in an order that
  it does not specify and that may differ from one loop to the next: the first loop
  visits the list \<open>typesMap\<close> (the argument \<^verbatim>\<open>customTypes\<close>) as it is, \<open>keys2\<close> and \<open>keys3\<close> are the orders in which the
  second and the third loop visit the keys of \<^verbatim>\<open>parsed\<close>.
\<close>

definition typeOrder :: "'ty typespkg \<Rightarrow> (string \<times> jvalue) list \<Rightarrow> string list \<Rightarrow> string list
    \<Rightarrow> error + ((string \<times> ('ty \<times> Marker list)) list \<times> string list)" where
  "typeOrder T typesMap keys2 keys3 =
     (case parseTypes T typesMap of
        Inl e \<Rightarrow> Inl e
      | Inr parsed \<Rightarrow>
          (case addVertices NewDirectedAcyclicGraph keys2 of
             Inl e \<Rightarrow> Inl e
           | Inr graph \<Rightarrow>
               (case addDependencies T parsed graph keys3 of
                  Inl e \<Rightarrow> Inl e
                | Inr graph' \<Rightarrow>
                    (case TopologicalSort graph' of
                       Inl e \<Rightarrow> Inl (ResolvingTypeOrder e)
                     | Inr order \<Rightarrow> Inr (parsed, order)))))"

text \<open>
  The last loop: in the order of the sort, the schema of each type is built (custom
  types are resolved against the types loaded so far), its markers are applied, with a
  parent schema that is discarded, and the type is stored.
\<close>

fun resolveTypes :: "'ty typespkg \<Rightarrow> golib \<Rightarrow> (string \<times> ('ty \<times> Marker list)) list
    \<Rightarrow> transformer \<Rightarrow> string list \<Rightarrow> error + transformer" where
  "resolveTypes T lib parsed t [] = Inr t"
| "resolveTypes T lib parsed t (name # order) =
     (case map_of parsed name of
        None \<Rightarrow> Inl NilType
      | Some tm \<Rightarrow>
          (case Schema T (fst tm) (Resolve t) of
             Inl e \<Rightarrow> Inl (BuildingSchema name e)
           | Inr schema \<Rightarrow>
               (let required = list_ex (\<lambda>m. Key m = ''required'' \<and> Value m = ''true'') (snd tm) in
                case applyMarkers lib (schema, emptySchema) (snd tm) name of
                  Inl e \<Rightarrow> Inl (ApplyingMarkers name e)
                | Inr sp \<Rightarrow>
                    resolveTypes T lib parsed
                      (t\<lparr>customTypes := AList.update name
                           \<lparr>ctSchema = fst sp, ctRequired = required\<rparr> (customTypes t)\<rparr>)
                      order)))"

definition loadCustomTypes :: "'ty typespkg \<Rightarrow> golib \<Rightarrow> transformer \<Rightarrow> (string \<times> jvalue) list
    \<Rightarrow> string list \<Rightarrow> string list \<Rightarrow> error + transformer" where
  "loadCustomTypes T lib t typesMap keys2 keys3 =
     (if length typesMap = 0 then Inr t
      else case typeOrder T typesMap keys2 keys3 of
             Inl e \<Rightarrow> Inl e
           | Inr po \<Rightarrow> resolveTypes T lib (fst po) t (snd po))"

text \<open>
  The references between the custom types of a \<^verbatim>\<open>types:\<close> map: \<open>(n, w)\<close> when the type
  named \<open>n\<close> refers to the type named \<open>w\<close>.
\<close>

definition references :: "'ty typespkg \<Rightarrow> (string \<times> jvalue) list \<Rightarrow> (string \<times> string) set" where
  "references T typesMap =
     {(n, w). \<exists>spec tm. map_of typesMap n = Some spec \<and> parseSpec T spec = Inr tm
                \<and> w \<in> set (Deps T (fst tm))}"

text \<open>
  The edges that the third loop adds for the names of \<open>K\<close>: from each name to the types
  that its type refers to.
\<close>

definition edges_of :: "'ty typespkg \<Rightarrow> (string \<times> ('ty \<times> Marker list)) list \<Rightarrow> string set
    \<Rightarrow> (string \<times> string) set" where
  "edges_of T parsed K =
     {(n, w). n \<in> K \<and> (\<exists>tm. map_of parsed n = Some tm \<and> w \<in> set (Deps T (fst tm)))}"

text \<open>The errors that report a cycle.\<close>

definition is_cycle_error :: "error \<Rightarrow> bool" where
  "is_cycle_error e =
     (case e of
        CyclicDependency name (CycleError c) \<Rightarrow> True
      | ResolvingTypeOrder (CycleError c) \<Rightarrow> True
      | _ \<Rightarrow> False)"

text \<open>
  \<open>child_of T lib t field c\<close>: the entry \<open>c\<close> of \<^verbatim>\<open>Properties\<close> is named as the field
  and holds a schema that \<^verbatim>\<open>buildFieldSchema\<close> returns for it.
\<close>

definition child_of :: "'ty typespkg \<Rightarrow> golib \<Rightarrow> transformer \<Rightarrow> string \<times> jvalue
    \<Rightarrow> string \<times> JSONSchemaProps \<Rightarrow> bool" where
  "child_of T lib t field c \<longleftrightarrow>
     fst c = fst field \<and>
     (\<exists>p p'. buildFieldSchema T lib t (fst field) (snd field) p = Inr (snd c, p'))"

subsection \<open>Sample inputs\<close>

text \<open>
  A small instance of the parameters, to run the compiler on: it knows the field strings
  \<^verbatim>\<open>string\<close>, \<^verbatim>\<open>integer\<close> and \<^verbatim>\<open>integer | default=10\<close>, and the decimal numerals
  \<^verbatim>\<open>1\<close> and \<^verbatim>\<open>10\<close>.
\<close>

definition sample_lib :: golib where
  "sample_lib = \<lparr>
     ParseBool = (\<lambda>s. if s = ''true'' then Some True else if s = ''false'' then Some False else None),
     ParseFloat = (\<lambda>s. if s = ''1'' then Some (Finite 1) else if s = ''10'' then Some (Finite 10) else None),
     ParseInt = (\<lambda>s. if s = ''1'' then Some 1 else if s = ''10'' then Some 10 else None),
     regexpCompile = (\<lambda>s. True),
     TrimSpace = (\<lambda>s. s),
     SplitComma = (\<lambda>s. [s]),
     Quote = (\<lambda>s. [CHR 0x22] @ s @ [CHR 0x22])\<rparr>"

definition sample_parse :: "string \<Rightarrow> error + (string \<times> Marker list)" where
  "sample_parse s =
     (if s = ''string'' then Inr (''string'', [])
      else if s = ''integer'' then Inr (''integer'', [])
      else if s = ''integer | default=10''
        then Inr (''integer'', [\<lparr>MarkerType = MarkerTypeDefault, Key = ''default'', Value = ''10''\<rparr>])
      else Inl (PackageError ''unknown type''))"

definition sample_types :: "string typespkg" where
  "sample_types = \<lparr>
     ParseField = sample_parse,
     parseSpec = (\<lambda>v. case v of JStr s \<Rightarrow> sample_parse s | _ \<Rightarrow> Inl UnexpectedType),
     Schema = (\<lambda>ty resolve. Inr (JSONSchemaProps (emptyFields\<lparr>Type := ty\<rparr>) [])),
     Deps = (\<lambda>ty. []),
     asCustom = (\<lambda>ty. None)\<rparr>"

definition sample_spec :: "(string \<times> jvalue) list" where
  "sample_spec = [(''name'', JStr ''string''), (''replicas'', JStr ''integer | default=10'')]"

definition plain_spec :: "(string \<times> jvalue) list" where
  "plain_spec = [(''name'', JStr ''string''), (''count'', JStr ''integer'')]"

text \<open>
  A types package in which a type is given by the name of the custom type it refers to,
  or is \<^verbatim>\<open>string\<close>; a \<^verbatim>\<open>types:\<close> map in which \<^verbatim>\<open>Person\<close> refers to \<^verbatim>\<open>Address\<close>, and
  one in which \<^verbatim>\<open>A\<close> and \<^verbatim>\<open>B\<close> refer to each other.
\<close>

definition dep_types :: "string typespkg" where
  "dep_types = \<lparr>
     ParseField = (\<lambda>s. Inr (s, [])),
     parseSpec = (\<lambda>v. case v of JStr s \<Rightarrow> Inr (s, []) | _ \<Rightarrow> Inl UnexpectedType),
     Schema = (\<lambda>ty resolve.
        if ty = ''string'' then Inr (JSONSchemaProps (emptyFields\<lparr>Type := ''string''\<rparr>) [])
        else resolve ty),
     Deps = (\<lambda>ty. if ty = ''string'' then [] else [ty]),
     asCustom = (\<lambda>ty. if ty = ''string'' then None else Some ty)\<rparr>"

definition person_types :: "(string \<times> jvalue) list" where
  "person_types = [(''Person'', JStr ''Address''), (''Address'', JStr ''string'')]"

definition cyclic_types :: "(string \<times> jvalue) list" where
  "cyclic_types = [(''A'', JStr ''B''), (''B'', JStr ''A'')]"

section \<open>The ResourceGraphDefinition CRD (config/crd/bases)\<close>

text \<open>
  The part of an OpenAPI v3 structural schema that the declaration of \<^verbatim>\<open>externalRef\<close>
  uses: strings, and objects with declared properties and a list of required ones.
\<close>

datatype oschema =
    OString
  | OObject "(string \<times> oschema) list" "string list"

text \<open>
  Validation of a value by the API server: a string schema accepts strings; an object
  schema accepts a map that has every required property and whose declared properties
  are valid (undeclared ones are not looked at).
\<close>

function (sequential)
    valid :: "oschema \<Rightarrow> jvalue \<Rightarrow> bool"
and valid_properties :: "(string \<times> oschema) list \<Rightarrow> (string \<times> jvalue) list \<Rightarrow> bool"
where
  "valid OString v = (case v of JStr s \<Rightarrow> True | _ \<Rightarrow> False)"
| "valid (OObject properties required) v =
     (case v of
        JMap m \<Rightarrow> list_all (\<lambda>r. map_of m r \<noteq> None) required \<and> valid_properties properties m
      | _ \<Rightarrow> False)"
| "valid_properties [] m = True"
| "valid_properties (p # ps) m =
     ((case map_of m (fst p) of None \<Rightarrow> True | Some v \<Rightarrow> valid (snd p) v)
      \<and> valid_properties ps m)"
  by pat_completeness auto
termination
  by (relation "measure (\<lambda>x. case x of
        Inl (s, _) \<Rightarrow> 2 * size s
      | Inr (ps, _) \<Rightarrow> 2 * size_list (size_prod (\<lambda>k. 0) size) ps + 1)") auto

text \<open>The schema of \<^verbatim>\<open>spec.resources[].externalRef\<close>, lines 76 to 100 of the CRD.\<close>

definition externalRef_schema :: oschema where
  "externalRef_schema =
     OObject
       [(''apiVersion'', OString),
        (''kind'', OString),
        (''metadata'',
           OObject [(''name'', OString), (''namespace'', OString)] [''name'', ''namespace''])]
       [''apiVersion'', ''kind'', ''metadata'']"

text \<open>
  The external reference of the documentation (external-references.md, section
  Dependencies), which gives no namespace, and the one of its basic example.
\<close>

definition externalRef_without_namespace :: jvalue where
  "externalRef_without_namespace =
     JMap [(''apiVersion'', JStr ''v1''), (''kind'', JStr ''ConfigMap''),
           (''metadata'', JMap [(''name'', JStr ''platform-config'')])]"

definition externalRef_with_namespace :: jvalue where
  "externalRef_with_namespace =
     JMap [(''apiVersion'', JStr ''v1''), (''kind'', JStr ''ConfigMap''),
           (''metadata'', JMap [(''name'', JStr ''platform-config''),
                               (''namespace'', JStr ''platform-system'')])]"

section \<open>Collection expansion (instance runtime)\<close>

text \<open>
  Modelled from the spec: the runtime that expands a collection resource, which is not
  among the source files. The spec (4.6): ``If the resource has forEach, evaluate each
  dimension to a list; the cartesian product of dimension lists yields the set of items.
  An iterator tuple binds one variable per dimension per item. Iteration order is
  lexicographic by dimension position, preserving input list order inside each
  dimension.'' A dimension is the name of its iterator with the list its expression
  evaluates to; an item is given by its iterator tuple, the list of the bindings of the
  iterators in the order of the dimensions.
\<close>

fun cartesianProduct :: "(string \<times> 'a list) list \<Rightarrow> (string \<times> 'a) list list" where
  "cartesianProduct [] = [[]]"
| "cartesianProduct (d # ds) =
     concat (map (\<lambda>v. map (\<lambda>tuple. (fst d, v) # tuple) (cartesianProduct ds)) (snd d))"

text \<open>The product of the sizes of the dimensions.\<close>

definition sizes_product :: "(string \<times> 'a list) list \<Rightarrow> nat" where
  "sizes_product ds = prod_list (map (\<lambda>d. length (snd d)) ds)"

text \<open>The dimensions of scenario S2 of the spec, and a dimension with a repeated value.\<close>

definition regions_tiers :: "(string \<times> string list) list" where
  "regions_tiers = [(''region'', [''us'', ''eu'']), (''tier'', [''web'', ''api''])]"

definition repeated_value :: "(string \<times> string list) list" where
  "repeated_value = [(''value'', [''a'', ''a''])]"

section \<open>forEach dimensions in the graph builder\<close>

text \<open>
  Modelled from the spec: the step of the graph builder that compiles the forEach
  dimensions of a resource; the builder is not among the source files (only its test
  \<^verbatim>\<open>TestGraphBuilder_CollectionValidation\<close> is). The spec (4.4, step 4a): ``compile each
  forEach dimension against the current environment (not yet extended by sibling
  dimensions); the result must be list-typed. Collect iterator bindings in declaration
  order; reject a dimension that mentions another iterator''; (4b): ``Extend the
  environment with iterator bindings.''

  The expression language is an external collaborator. Of an expression the model keeps
  the variables it mentions and the type it has when it compiles; compiling it against an
  environment fails when it mentions a variable that the environment does not declare.
\<close>

datatype celtype = ListType | ScalarType

record expression =
  freeVars :: "string list"
  resultType :: celtype

datatype build_error =
    IteratorCrossReference string string
  | UnresolvedReference string
  | NotAList string

definition compile :: "string list \<Rightarrow> expression \<Rightarrow> build_error + celtype" where
  "compile env e =
     (case filter (\<lambda>x. x \<notin> set env) (freeVars e) of
        [] \<Rightarrow> Inr (resultType e)
      | x # xs \<Rightarrow> Inl (UnresolvedReference x))"

text \<open>
  One dimension, the name of its iterator with its expression: it is rejected when the
  expression mentions the iterator of another dimension of the resource and, if not, it is
  compiled against \<open>env\<close>, the environment of the resource before any iterator is added,
  and its result must be a list.
\<close>

definition compileDimension :: "string list \<Rightarrow> string list \<Rightarrow> string \<times> expression
    \<Rightarrow> build_error + string" where
  "compileDimension env iterators d =
     (case filter (\<lambda>x. x \<in> set iterators \<and> x \<noteq> fst d) (freeVars (snd d)) of
        x # xs \<Rightarrow> Inl (IteratorCrossReference (fst d) x)
      | [] \<Rightarrow>
          (case compile env (snd d) of
             Inl e \<Rightarrow> Inl e
           | Inr ty \<Rightarrow> if ty = ListType then Inr (fst d) else Inl (NotAList (fst d))))"

text \<open>The dimensions in declaration order; the result is the list of iterator bindings.\<close>

fun compileDimensions :: "string list \<Rightarrow> string list \<Rightarrow> (string \<times> expression) list
    \<Rightarrow> build_error + string list" where
  "compileDimensions env iterators [] = Inr []"
| "compileDimensions env iterators (d # ds) =
     (case compileDimension env iterators d of
        Inl e \<Rightarrow> Inl e
      | Inr binding \<Rightarrow>
          (case compileDimensions env iterators ds of
             Inl e \<Rightarrow> Inl e
           | Inr bindings \<Rightarrow> Inr (binding # bindings)))"

text \<open>The result is the environment extended with the iterator bindings.\<close>

definition compileForEach :: "string list \<Rightarrow> (string \<times> expression) list
    \<Rightarrow> build_error + string list" where
  "compileForEach env ds =
     (case compileDimensions env (map fst ds) ds of
        Inl e \<Rightarrow> Inl e
      | Inr bindings \<Rightarrow> Inr (env @ bindings))"

text \<open>
  The dimensions of two cases of \<^verbatim>\<open>TestGraphBuilder_CollectionValidation\<close>: ``forEach
  iterator references another iterator'' (\<^verbatim>\<open>element\<close> over \<^verbatim>\<open>schema.spec.items\<close>,
  \<^verbatim>\<open>derived\<close> over \<^verbatim>\<open>element\<close>) and ``multiple iterators (cartesian product)''.
\<close>

definition cross_reference_dims :: "(string \<times> expression) list" where
  "cross_reference_dims =
     [(''element'', \<lparr>freeVars = [''schema''], resultType = ListType\<rparr>),
      (''derived'', \<lparr>freeVars = [''element''], resultType = ScalarType\<rparr>)]"

definition cartesian_dims :: "(string \<times> expression) list" where
  "cartesian_dims =
     [(''cidr'', \<lparr>freeVars = [''schema''], resultType = ListType\<rparr>),
      (''vpcID'', \<lparr>freeVars = [''schema''], resultType = ListType\<rparr>)]"

section \<open>Compare on a store\<close>

text \<open>
  Go maps and slices are references: \<^verbatim>\<open>delete(metadata, field)\<close> in \<^verbatim>\<open>cleanMetadata\<close>
  changes the map for every holder of it. To say what \<^verbatim>\<open>Compare\<close> does to its
  arguments, values live in a store: a list of objects (maps and slices), an address
  being a position in the list; a value is a leaf or the address of a map or of a slice.
  A pointer to an \<^verbatim>\<open>Unstructured\<close> is given by the address of its \<^verbatim>\<open>Object\<close> map, the only
  field of the struct, which \<^verbatim>\<open>Compare\<close> never assigns. A \<^verbatim>\<open>nil\<close> map is an empty map
  here: the code only reads maps and deletes from them.
\<close>

type_synonym addr = nat

datatype hvalue =
    HNil
  | HBool bool
  | HInt int
  | HFloat float64
  | HStr string
  | HNumber string
  | HMapRef addr
  | HSliceRef addr

datatype hobject =
    HMap "(string \<times> hvalue) list"
  | HSlice "hvalue list"

type_synonym store = "hobject list"

definition deref :: "store \<Rightarrow> addr \<Rightarrow> hobject option" where
  "deref h a = (if a < length h then Some (h ! a) else None)"

text \<open>
  The value at an address, as a tree. References are followed at most \<open>n\<close> deep: the
  result is \<open>None\<close> when the structure is deeper (or cyclic), when an address is not in
  the store, or when a reference to a map finds a slice or the reverse.
\<close>

function (sequential)
    valueOf :: "nat \<Rightarrow> store \<Rightarrow> hvalue \<Rightarrow> jvalue option"
and valuesOf :: "nat \<Rightarrow> store \<Rightarrow> hvalue list \<Rightarrow> jvalue list option"
where
  "valueOf 0 h v = None"
| "valueOf (Suc n) h v =
     (case v of
        HNil \<Rightarrow> Some JNil
      | HBool b \<Rightarrow> Some (JBool b)
      | HInt i \<Rightarrow> Some (JInt i)
      | HFloat x \<Rightarrow> Some (JFloat x)
      | HStr s \<Rightarrow> Some (JStr s)
      | HNumber s \<Rightarrow> Some (JNumber s)
      | HMapRef a \<Rightarrow>
          (case deref h a of
             Some (HMap kvs) \<Rightarrow>
               (case valuesOf n h (map snd kvs) of
                  None \<Rightarrow> None
                | Some vs \<Rightarrow> Some (JMap (zip (map fst kvs) vs)))
           | _ \<Rightarrow> None)
      | HSliceRef a \<Rightarrow>
          (case deref h a of
             Some (HSlice xs) \<Rightarrow>
               (case valuesOf n h xs of
                  None \<Rightarrow> None
                | Some vs \<Rightarrow> Some (JList vs))
           | _ \<Rightarrow> None))"
| "valuesOf n h [] = Some []"
| "valuesOf n h (x # xs) =
     (case valueOf n h x of
        None \<Rightarrow> None
      | Some v \<Rightarrow>
          (case valuesOf n h xs of
             None \<Rightarrow> None
           | Some vs \<Rightarrow> Some (v # vs)))"
  by pat_completeness auto
termination
  by (relation "inv_image (less_than <*lex*> less_than) (\<lambda>x. case x of
        Inl (n, _, _) \<Rightarrow> (n, 0)
      | Inr (n, _, xs) \<Rightarrow> (n, Suc (length xs)))") auto

text \<open>
  \<^verbatim>\<open>runtime.DeepCopyJSONValue\<close> (apimachinery): a leaf is returned as it is; for a map
  or a slice the elements are copied and a new map or slice that holds the copies is
  allocated at the end of the store. The depth is bounded by \<open>n\<close> as in \<open>valueOf\<close> (on a
  cyclic structure the Go function does not return).
\<close>

function (sequential)
    deepCopyValue :: "nat \<Rightarrow> store \<Rightarrow> hvalue \<Rightarrow> (store \<times> hvalue) option"
and deepCopyValues :: "nat \<Rightarrow> store \<Rightarrow> hvalue list \<Rightarrow> (store \<times> hvalue list) option"
where
  "deepCopyValue 0 h v = None"
| "deepCopyValue (Suc n) h v =
     (case v of
        HMapRef a \<Rightarrow>
          (case deref h a of
             Some (HMap kvs) \<Rightarrow>
               (case deepCopyValues n h (map snd kvs) of
                  None \<Rightarrow> None
                | Some hc \<Rightarrow>
                    Some (fst hc @ [HMap (zip (map fst kvs) (snd hc))], HMapRef (length (fst hc))))
           | _ \<Rightarrow> None)
      | HSliceRef a \<Rightarrow>
          (case deref h a of
             Some (HSlice xs) \<Rightarrow>
               (case deepCopyValues n h xs of
                  None \<Rightarrow> None
                | Some hc \<Rightarrow> Some (fst hc @ [HSlice (snd hc)], HSliceRef (length (fst hc))))
           | _ \<Rightarrow> None)
      | _ \<Rightarrow> Some (h, v))"
| "deepCopyValues n h [] = Some (h, [])"
| "deepCopyValues n h (x # xs) =
     (case deepCopyValue n h x of
        None \<Rightarrow> None
      | Some hc \<Rightarrow>
          (case deepCopyValues n (fst hc) xs of
             None \<Rightarrow> None
           | Some hcs \<Rightarrow> Some (fst hcs, snd hc # snd hcs)))"
  by pat_completeness auto
termination
  by (relation "inv_image (less_than <*lex*> less_than) (\<lambda>x. case x of
        Inl (n, _, _) \<Rightarrow> (n, 0)
      | Inr (n, _, xs) \<Rightarrow> (n, Suc (length xs)))") auto

text \<open>\<^verbatim>\<open>cleanMetadata\<close> on the store: the deletions happen in the metadata map itself.\<close>

definition dropIfEmptyMap_store :: "store \<Rightarrow> string \<Rightarrow> (string \<times> hvalue) list
    \<Rightarrow> (string \<times> hvalue) list" where
  "dropIfEmptyMap_store h key metadata =
     (case map_of metadata key of
        Some (HMapRef a) \<Rightarrow>
          (case deref h a of
             Some (HMap m) \<Rightarrow> (if length m = 0 then AList.delete key metadata else metadata)
           | _ \<Rightarrow> metadata)
      | _ \<Rightarrow> metadata)"

definition cleanFields_store :: "store \<Rightarrow> (string \<times> hvalue) list \<Rightarrow> (string \<times> hvalue) list" where
  "cleanFields_store h metadata =
     foldl (\<lambda>m field. AList.delete field m)
       (dropIfEmptyMap_store h ''labels'' (dropIfEmptyMap_store h ''annotations'' metadata))
       fieldsToRemove"

definition cleanMetadata_store :: "store \<Rightarrow> addr \<Rightarrow> store" where
  "cleanMetadata_store h obj =
     (case deref h obj of
        Some (HMap object) \<Rightarrow>
          (case map_of object ''metadata'' of
             Some (HMapRef m) \<Rightarrow>
               (case deref h m of
                  Some (HMap metadata) \<Rightarrow> h[m := HMap (cleanFields_store h metadata)]
                | _ \<Rightarrow> h)
           | _ \<Rightarrow> h)
      | _ \<Rightarrow> h)"

text \<open>
  \<^verbatim>\<open>Compare\<close> on the store: the arguments are the addresses of the \<^verbatim>\<open>Object\<close> maps of
  \<^verbatim>\<open>desired\<close> and \<^verbatim>\<open>observed\<close>. Both are copied, both copies are cleaned, and the walk
  (which only reads) runs on the two copies. The result is the list of differences with
  the store after the call, or \<open>None\<close> when the bound \<open>n\<close> is too small for the arguments.
\<close>

definition Compare_store :: "nat \<Rightarrow> store \<Rightarrow> addr \<Rightarrow> addr \<Rightarrow> (Difference list \<times> store) option" where
  "Compare_store n h desired observed =
     (case deepCopyValue n h (HMapRef desired) of
        Some (h1, HMapRef desiredCopy) \<Rightarrow>
          (case deepCopyValue n h1 (HMapRef observed) of
             Some (h2, HMapRef observedCopy) \<Rightarrow>
               (let h3 = cleanMetadata_store h2 desiredCopy;
                    h4 = cleanMetadata_store h3 observedCopy
                in case valueOf n h4 (HMapRef desiredCopy) of
                     None \<Rightarrow> None
                   | Some d \<Rightarrow>
                       (case valueOf n h4 (HMapRef observedCopy) of
                          None \<Rightarrow> None
                        | Some e \<Rightarrow> Some (walkCompare d e [] [], h4)))
           | _ \<Rightarrow> None)
      | _ \<Rightarrow> None)"

text \<open>
  \<open>fresh k v\<close>: if \<open>v\<close> is a reference, it is to an address from \<open>k\<close> on; \<open>fresh_at k h a\<close>:
  a map at address \<open>a\<close> of the store holds such values only.
\<close>

definition fresh :: "nat \<Rightarrow> hvalue \<Rightarrow> bool" where
  "fresh k v = (case v of HMapRef a \<Rightarrow> k \<le> a | HSliceRef a \<Rightarrow> k \<le> a | _ \<Rightarrow> True)"

definition fresh_at :: "nat \<Rightarrow> store \<Rightarrow> addr \<Rightarrow> bool" where
  "fresh_at k h a =
     (case deref h a of Some (HMap kvs) \<Rightarrow> list_all (\<lambda>kv. fresh k (snd kv)) kvs | _ \<Rightarrow> True)"

text \<open>
  A store with a desired ConfigMap at address 2 (its metadata, with a \<^verbatim>\<open>uid\<close> and empty
  labels, at address 1) and the observed one at address 5.
\<close>

definition sample_store :: store where
  "sample_store =
     [HMap [],
      HMap [(''name'', HStr ''m-a''), (''uid'', HStr ''1234''), (''labels'', HMapRef 0)],
      HMap [(''kind'', HStr ''ConfigMap''), (''metadata'', HMapRef 1)],
      HMap [(''name'', HStr ''m-a''), (''resourceVersion'', HStr ''7'')],
      HMap [(''key'', HStr ''a'')],
      HMap [(''kind'', HStr ''ConfigMap''), (''metadata'', HMapRef 3), (''data'', HMapRef 4)]]"

text \<open>The objects that \<^verbatim>\<open>Compare\<close> allocates on \<open>sample_store\<close>: the two cleaned copies.\<close>

definition sample_copies :: store where
  "sample_copies =
     [HMap [],
      HMap [(''name'', HStr ''m-a'')],
      HMap [(''kind'', HStr ''ConfigMap''), (''metadata'', HMapRef 7)],
      HMap [(''name'', HStr ''m-a'')],
      HMap [(''key'', HStr ''a'')],
      HMap [(''kind'', HStr ''ConfigMap''), (''metadata'', HMapRef 9), (''data'', HMapRef 10)]]"

section \<open>Properties of the delta computer\<close>

lemma walkCompare_JMap_JMap [simp]:
  "walkCompare (JMap d) (JMap e) path acc = walkMap d e path acc"
  by (simp add: walkCompare.simps)

lemma walkCompare_JList_JList [simp]:
  "walkCompare (JList d) (JList e) path acc = walkSlice d e path acc"
  by (simp add: walkCompare.simps)

lemma walkMap_Cons:
  "walkMap (kv # rest) observed path acc
     = walkMap rest observed path (walkMap_body kv observed path acc)"
  by (simp add: walkMap_body_def Let_def split: option.split)

declare walkMap.simps(2) [simp del]

lemma walkMap_same_aux:
  assumes "\<forall>kv \<in> set ds. map_of obs (fst kv) = Some (snd kv)
             \<and> (\<forall>p acc. walkCompare (snd kv) (snd kv) p acc = acc)"
  shows "walkMap ds obs path acc = acc"
  using assms by (induction ds arbitrary: acc) (simp_all add: walkMap_Cons walkMap_body_def Let_def)

lemma walkSlice_loop_same_aux:
  assumes "\<forall>v \<in> set ds. \<forall>p acc. walkCompare v v p acc = acc"
  shows "walkSlice_loop i ds ds path acc = acc"
  using assms by (induction ds arbitrary: i acc) simp_all

lemma map_of_distinct_self:
  "distinct (map fst kvs) \<Longrightarrow> kv \<in> set kvs \<Longrightarrow> map_of kvs (fst kv) = Some (snd kv)"
  by (cases kv) simp

lemma walkCompare_self: "wf_jvalue v \<Longrightarrow> nan_free v \<Longrightarrow> walkCompare v v path acc = acc"
proof (induction v arbitrary: path acc)
  case (JMap kvs)
  have "\<forall>kv \<in> set kvs. map_of kvs (fst kv) = Some (snd kv)
          \<and> (\<forall>p acc. walkCompare (snd kv) (snd kv) p acc = acc)"
  proof
    fix kv assume kv: "kv \<in> set kvs"
    have 1: "map_of kvs (fst kv) = Some (snd kv)"
      using JMap.prems kv by (simp add: map_of_distinct_self)
    have "snd kv \<in> Basic_BNFs.snds kv" by (cases kv) simp
    then have 2: "\<forall>p acc. walkCompare (snd kv) (snd kv) p acc = acc"
      using JMap.IH [OF kv] JMap.prems kv by simp
    show "map_of kvs (fst kv) = Some (snd kv)
          \<and> (\<forall>p acc. walkCompare (snd kv) (snd kv) p acc = acc)"
      using 1 2 by blast
  qed
  then show ?case by (simp add: walkMap_same_aux)
next
  case (JList vs)
  then show ?case by (simp add: walkSlice_loop_same_aux)
qed (simp_all add: walkCompare.simps iface_eq_def float64_eq_def)

lemma wf_map_delete:
  "wf_jvalue (JMap m) \<Longrightarrow> wf_jvalue (JMap (AList.delete k m))"
proof -
  assume m: "wf_jvalue (JMap m)"
  have "set (AList.delete k m) \<subseteq> set m" by (auto simp: AList.delete_eq)
  then show ?thesis using m by (auto simp: distinct_delete)
qed

lemma wf_map_update:
  "wf_jvalue (JMap m) \<Longrightarrow> wf_jvalue v \<Longrightarrow> wf_jvalue (JMap (AList.update k v m))"
proof -
  assume m: "wf_jvalue (JMap m)" and v: "wf_jvalue v"
  have "set (AList.update k v m) \<subseteq> insert (k, v) (set m)"
    by (induction m) auto
  then show ?thesis using m v by (auto simp: distinct_update)
qed

lemma wf_map_lookup:
  "wf_jvalue (JMap m) \<Longrightarrow> map_of m k = Some v \<Longrightarrow> wf_jvalue v"
  by (auto dest: map_of_SomeD)

lemma wf_dropIfEmptyMap:
  "wf_jvalue (JMap m) \<Longrightarrow> wf_jvalue (JMap (dropIfEmptyMap k m))"
  unfolding dropIfEmptyMap_def
  by (simp only: wf_map_delete split: option.split jvalue.split if_split) simp

lemma wf_foldl_delete:
  "wf_jvalue (JMap m) \<Longrightarrow> wf_jvalue (JMap (foldl (\<lambda>m field. AList.delete field m) m fs))"
  by (induction fs arbitrary: m) (simp_all only: foldl.simps wf_map_delete)

lemma wf_cleanFields:
  "wf_jvalue (JMap m) \<Longrightarrow> wf_jvalue (JMap (cleanFields m))"
  unfolding cleanFields_def by (intro wf_foldl_delete wf_dropIfEmptyMap)

lemma wf_cleanMetadata:
  assumes "wf_jvalue (JMap (Object obj))"
  shows "wf_jvalue (JMap (Object (cleanMetadata obj)))"
proof (cases "map_of (Object obj) ''metadata''")
  case None
  then show ?thesis using assms by (simp add: cleanMetadata_def)
next
  case (Some v)
  show ?thesis
  proof (cases v)
    case (JMap metadata)
    have "wf_jvalue (JMap metadata)"
      using wf_map_lookup [OF assms, of "''metadata''" "JMap metadata"] Some JMap by blast
    then have "wf_jvalue (JMap (cleanFields metadata))" by (rule wf_cleanFields)
    then show ?thesis
      using assms Some JMap by (simp add: cleanMetadata_def wf_map_update del: wf_jvalue.simps)
  qed (use assms Some in \<open>simp_all add: cleanMetadata_def\<close>)
qed

lemma nan_free_map_delete:
  "nan_free (JMap m) \<Longrightarrow> nan_free (JMap (AList.delete k m))"
  by (auto simp: AList.delete_eq)

lemma nan_free_map_update:
  "nan_free (JMap m) \<Longrightarrow> nan_free v \<Longrightarrow> nan_free (JMap (AList.update k v m))"
proof -
  assume m: "nan_free (JMap m)" and v: "nan_free v"
  have "set (AList.update k v m) \<subseteq> insert (k, v) (set m)"
    by (induction m) auto
  then show ?thesis using m v by auto
qed

lemma nan_free_map_lookup:
  "nan_free (JMap m) \<Longrightarrow> map_of m k = Some v \<Longrightarrow> nan_free v"
  by (force dest: map_of_SomeD)

lemma nan_free_dropIfEmptyMap:
  "nan_free (JMap m) \<Longrightarrow> nan_free (JMap (dropIfEmptyMap k m))"
  unfolding dropIfEmptyMap_def
  by (simp only: nan_free_map_delete split: option.split jvalue.split if_split) simp

lemma nan_free_foldl_delete:
  "nan_free (JMap m) \<Longrightarrow> nan_free (JMap (foldl (\<lambda>m field. AList.delete field m) m fs))"
  by (induction fs arbitrary: m) (simp_all only: foldl.simps nan_free_map_delete)

lemma nan_free_cleanFields:
  "nan_free (JMap m) \<Longrightarrow> nan_free (JMap (cleanFields m))"
  unfolding cleanFields_def by (intro nan_free_foldl_delete nan_free_dropIfEmptyMap)

lemma nan_free_cleanMetadata:
  assumes "nan_free (JMap (Object obj))"
  shows "nan_free (JMap (Object (cleanMetadata obj)))"
proof (cases "map_of (Object obj) ''metadata''")
  case None
  then show ?thesis using assms by (simp add: cleanMetadata_def)
next
  case (Some v)
  show ?thesis
  proof (cases v)
    case (JMap metadata)
    have "nan_free (JMap metadata)"
      using nan_free_map_lookup [OF assms, of "''metadata''" "JMap metadata"] Some JMap by blast
    then have "nan_free (JMap (cleanFields metadata))" by (rule nan_free_cleanFields)
    then show ?thesis
      using assms Some JMap by (simp add: cleanMetadata_def nan_free_map_update del: nan_free.simps)
  qed (use assms Some in \<open>simp_all add: cleanMetadata_def\<close>)
qed

text \<open>
  C4, as amended: comparing an object with itself yields no difference when no
  \<^verbatim>\<open>float64\<close> leaf of the object is a NaN. For every unstructured object \<open>d\<close> (a Go
  value, so the keys of each of its maps are unique) without a NaN leaf, \<open>Compare d d\<close>
  returns the empty list of differences and no error.
\<close>

theorem Compare_self_no_differences:
  assumes "wf_jvalue (JMap (Object d))" and "nan_free (JMap (Object d))"
  shows "Compare d d = ([], None)"
  using walkCompare_self [OF wf_cleanMetadata [OF assms(1)] nan_free_cleanMetadata [OF assms(2)]]
  by (simp add: Compare_def DeepCopy_def Let_def)

theorem Compare_self_no_differences_witness:
  "wf_jvalue (JMap (Object sample_object)) \<and> nan_free (JMap (Object sample_object))
   \<and> Compare sample_object sample_object = ([], None)"
proof -
  have wf: "wf_jvalue (JMap (Object sample_object))"
    by (simp add: sample_object_def)
  have nf: "nan_free (JMap (Object sample_object))"
    by (simp add: sample_object_def)
  show ?thesis using wf nf Compare_self_no_differences [OF wf nf] by simp
qed

text \<open>
  C4 as stated fails: Go's \<^verbatim>\<open>!=\<close> holds between a NaN and itself, so the object
  \<^verbatim>\<open>{"spec": {"f": NaN}}\<close> compared with itself yields one difference, at \<^verbatim>\<open>spec.f\<close>.
\<close>

theorem Compare_self_NaN_counterexample:
  "wf_jvalue (JMap (Object nan_object))
   \<and> Compare nan_object nan_object
       = ([\<lparr>Path = ''spec.f'', Desired = JFloat NaN, Observed = JFloat NaN\<rparr>], None)"
  by (simp add: nan_object_def Compare_def DeepCopy_def cleanMetadata_def walkMap_Cons
        walkMap_body_def walkCompare.simps iface_eq_def float64_eq_def Let_def)

subsection \<open>Nil-valued desired fields\<close>

lemma walkMap_append:
  "walkMap (xs @ ys) obs path acc = walkMap ys obs path (walkMap xs obs path acc)"
  by (induction xs arbitrary: acc) (simp_all add: walkMap_Cons)

lemma walkCompare_JNil_JNil: "walkCompare JNil JNil path acc = acc"
  by (simp add: walkCompare.simps iface_eq_def)

lemma walkMap_body_nil_absent:
  "map_of observed k = None \<Longrightarrow> walkMap_body (k, JNil) observed path acc = acc"
  by (simp add: walkMap_body_def walkCompare_JNil_JNil)

text \<open>
  C9: in the map walk of \<open>Compare\<close>, a key of the desired map whose value is \<^verbatim>\<open>nil\<close> and
  which the observed map does not have produces no difference: the iteration for that
  entry leaves the list of differences as it was, and the whole walk returns what it
  returns on the desired map without that entry.
\<close>

theorem walkMap_nil_desired_absent_observed:
  assumes "map_of observed k = None"
  shows "walkMap_body (k, JNil) observed path acc = acc
         \<and> walkMap (before @ (k, JNil) # after) observed path acc
             = walkMap (before @ after) observed path acc"
  using assms by (simp add: walkMap_append walkMap_Cons walkMap_body_nil_absent)

theorem walkMap_nil_desired_absent_observed_witness:
  "map_of [(''key'', JStr ''a'')] ''none'' = None
   \<and> walkMap_body (''none'', JNil) [(''key'', JStr ''a'')] ''data'' [] = []
   \<and> walkMap ([(''key'', JStr ''b'')] @ (''none'', JNil) # [(''n'', JInt 3)])
         [(''key'', JStr ''a'')] ''data'' []
       = walkMap ([(''key'', JStr ''b'')] @ [(''n'', JInt 3)]) [(''key'', JStr ''a'')] ''data'' []"
proof -
  have h: "map_of [(''key'', JStr ''a'')] ''none'' = None" by simp
  show ?thesis
    using h walkMap_nil_desired_absent_observed
              [OF h, of "''data''" "[]" "[(''key'', JStr ''b'')]" "[(''n'', JInt 3)]"]
    by blast
qed

subsection \<open>Data present only in the observed object\<close>

lemma walkMap_body_cong_lookup:
  "map_of e (fst kv) = map_of e' (fst kv)
     \<Longrightarrow> walkMap_body kv e path acc = walkMap_body kv e' path acc"
  by (simp add: walkMap_body_def)

lemma walkMap_cong_lookup:
  assumes "\<forall>k \<in> fst ` set d. map_of e k = map_of e' k"
  shows "walkMap d e path acc = walkMap d e' path acc"
  using assms
proof (induction d arbitrary: acc)
  case Nil
  show ?case by simp
next
  case (Cons kv d)
  have "walkMap_body kv e path acc = walkMap_body kv e' path acc"
    using Cons.prems by (intro walkMap_body_cong_lookup) simp
  moreover have "\<forall>k \<in> fst ` set d. map_of e k = map_of e' k"
    using Cons.prems by simp
  ultimately show ?case by (simp add: walkMap_Cons Cons.IH)
qed

lemma walkMap_delete_observed_only:
  assumes "k \<notin> fst ` set d"
  shows "walkMap d (AList.delete k e) path acc = walkMap d e path acc"
proof (rule walkMap_cong_lookup)
  show "\<forall>k' \<in> fst ` set d. map_of (AList.delete k e) k' = map_of e k'"
    using assms by (auto simp: delete_conv')
qed

lemma map_of_foldl_delete:
  "map_of (foldl (\<lambda>m field. AList.delete field m) m fs) k
     = (if k \<in> set fs then None else map_of m k)"
  by (induction fs arbitrary: m) (auto simp: delete_conv')

lemma map_of_dropIfEmptyMap_other:
  "k \<noteq> key \<Longrightarrow> map_of (dropIfEmptyMap key m) k = map_of m k"
  by (simp add: dropIfEmptyMap_def split: option.split jvalue.split)

lemma map_of_dropIfEmptyMap_same:
  "map_of (dropIfEmptyMap key m) key \<noteq> Some (JMap [])"
  by (auto simp: dropIfEmptyMap_def delete_conv' split: option.split jvalue.split)

lemma cleanFields_removed:
  "f \<in> set fieldsToRemove \<Longrightarrow> map_of (cleanFields m) f = None"
  by (simp add: cleanFields_def map_of_foldl_delete)

lemma labels_not_removed: "''labels'' \<notin> set fieldsToRemove"
  by (simp add: fieldsToRemove_def)

lemma annotations_not_removed: "''annotations'' \<notin> set fieldsToRemove"
  by (simp add: fieldsToRemove_def)

lemma cleanFields_labels: "map_of (cleanFields m) ''labels'' \<noteq> Some (JMap [])"
  by (simp add: cleanFields_def map_of_foldl_delete labels_not_removed map_of_dropIfEmptyMap_same)

lemma cleanFields_annotations: "map_of (cleanFields m) ''annotations'' \<noteq> Some (JMap [])"
  by (simp add: cleanFields_def map_of_foldl_delete annotations_not_removed
        map_of_dropIfEmptyMap_same map_of_dropIfEmptyMap_other)

lemma map_of_cleanMetadata:
  "map_of (Object (cleanMetadata x)) k =
     (if k = ''metadata''
      then (case map_of (Object x) ''metadata'' of
              Some (JMap md) \<Rightarrow> Some (JMap (cleanFields md))
            | other \<Rightarrow> other)
      else map_of (Object x) k)"
  by (simp add: cleanMetadata_def update_conv' split: option.split jvalue.split)

lemma keys_cleanMetadata: "fst ` set (Object (cleanMetadata x)) = fst ` set (Object x)"
  by (auto simp: cleanMetadata_def dom_update split: option.split jvalue.split
           dest!: map_of_SomeD intro: rev_image_eqI)

lemma cleanMetadata_stripped:
  assumes "map_of (Object (cleanMetadata x)) ''metadata'' = Some (JMap m)"
  shows "(\<forall>f \<in> set fieldsToRemove. map_of m f = None)
         \<and> map_of m ''labels'' \<noteq> Some (JMap []) \<and> map_of m ''annotations'' \<noteq> Some (JMap [])"
proof -
  obtain md where "m = cleanFields md"
    using assms by (auto simp: map_of_cleanMetadata split: option.splits jvalue.splits)
  then show ?thesis
    by (simp add: cleanFields_removed cleanFields_labels cleanFields_annotations)
qed

lemma Compare_delete_observed_only:
  assumes "k \<notin> fst ` set (Object desired)"
  shows "Compare desired (observed\<lparr>Object := AList.delete k (Object observed)\<rparr>)
           = Compare desired observed"
proof -
  have "walkMap (Object (cleanMetadata desired))
          (Object (cleanMetadata (observed\<lparr>Object := AList.delete k (Object observed)\<rparr>))) [] []
        = walkMap (Object (cleanMetadata desired)) (Object (cleanMetadata observed)) [] []"
  proof (rule walkMap_cong_lookup, rule ballI)
    fix k' assume "k' \<in> fst ` set (Object (cleanMetadata desired))"
    then have "k' \<noteq> k" using assms by (auto simp: keys_cleanMetadata)
    then show "map_of (Object (cleanMetadata (observed\<lparr>Object := AList.delete k (Object observed)\<rparr>))) k'
               = map_of (Object (cleanMetadata observed)) k'"
      by (simp add: map_of_cleanMetadata delete_conv')
  qed
  then show ?thesis by (simp add: Compare_def DeepCopy_def Let_def)
qed

lemma dropIfEmptyMap_update_other:
  "f \<noteq> key \<Longrightarrow> dropIfEmptyMap key (AList.update f v md) = AList.update f v (dropIfEmptyMap key md)"
  by (simp add: dropIfEmptyMap_def update_conv' delete_update split: option.split jvalue.split)

lemma foldl_delete_update_removed:
  "f \<in> set fs \<Longrightarrow> foldl (\<lambda>m field. AList.delete field m) (AList.update f v md) fs
                    = foldl (\<lambda>m field. AList.delete field m) md fs"
proof (induction fs arbitrary: md)
  case Nil
  then show ?case by simp
next
  case (Cons g fs)
  show ?case
  proof (cases "g = f")
    case True
    then show ?thesis by (simp add: delete_update_same)
  next
    case False
    then have "f \<in> set fs" using Cons.prems by simp
    then show ?thesis using False Cons.IH by (simp add: delete_update)
  qed
qed

lemma cleanFields_update_removed:
  assumes "f \<in> set fieldsToRemove"
  shows "cleanFields (AList.update f v md) = cleanFields md"
proof -
  have "f \<noteq> ''labels''" "f \<noteq> ''annotations''"
    using assms labels_not_removed annotations_not_removed by auto
  then show ?thesis
    using assms by (simp add: cleanFields_def dropIfEmptyMap_update_other foldl_delete_update_removed)
qed

lemma cleanMetadata_update_removed:
  assumes "f \<in> set fieldsToRemove" and "map_of (Object x) ''metadata'' = Some (JMap md)"
  shows "cleanMetadata (x\<lparr>Object := AList.update ''metadata'' (JMap (AList.update f v md)) (Object x)\<rparr>)
           = cleanMetadata x"
  using assms by (simp add: cleanMetadata_def update_conv' cleanFields_update_removed)

lemma spec_fields_removed:
  "set [''creationTimestamp'', ''uid'', ''resourceVersion'', ''managedFields'', ''selfLink'',
        ''generation'', ''ownerReferences'', ''finalizers''] \<subseteq> set fieldsToRemove"
  by (simp add: fieldsToRemove_def)

text \<open>
  C3: \<open>Compare\<close> reports no difference arising from data present only in the observed
  object. For every pair of desired and observed objects: (1) \<open>Compare\<close> walks the two
  objects after \<open>cleanMetadata\<close> has been applied to both; (2) the metadata of a cleaned
  object holds none of the server-managed fields (creation timestamp, uid, resource
  version, managed fields, self link, generation, owner references, finalizers) and no
  empty labels or annotations; (3) setting any of the removed fields in the metadata of
  the observed object does not change the result; (4) a key that only the observed object
  has can be deleted from it without changing the result, and (5) the same holds in the
  map walk at every level: a key present only in the observed map contributes nothing.
\<close>

theorem Compare_ignores_observed_only_data:
  "Compare desired observed =
     (walkCompare (JMap (Object (cleanMetadata desired)))
                  (JMap (Object (cleanMetadata observed))) [] [], None)
   \<and> (\<forall>x m. map_of (Object (cleanMetadata x)) ''metadata'' = Some (JMap m) \<longrightarrow>
          (\<forall>f \<in> set [''creationTimestamp'', ''uid'', ''resourceVersion'', ''managedFields'',
                       ''selfLink'', ''generation'', ''ownerReferences'', ''finalizers''].
             map_of m f = None)
          \<and> map_of m ''labels'' \<noteq> Some (JMap [])
          \<and> map_of m ''annotations'' \<noteq> Some (JMap []))
   \<and> (\<forall>f v md. f \<in> set fieldsToRemove
          \<and> map_of (Object observed) ''metadata'' = Some (JMap md) \<longrightarrow>
          Compare desired
            (observed\<lparr>Object := AList.update ''metadata'' (JMap (AList.update f v md))
                                   (Object observed)\<rparr>)
          = Compare desired observed)
   \<and> (\<forall>k. k \<notin> fst ` set (Object desired) \<longrightarrow>
          Compare desired (observed\<lparr>Object := AList.delete k (Object observed)\<rparr>)
          = Compare desired observed)
   \<and> (\<forall>k d e path acc. k \<notin> fst ` set d \<longrightarrow>
          walkMap d (AList.delete k e) path acc = walkMap d e path acc)"
proof (intro conjI allI impI)
  show "Compare desired observed =
     (walkCompare (JMap (Object (cleanMetadata desired)))
                  (JMap (Object (cleanMetadata observed))) [] [], None)"
    by (simp add: Compare_def DeepCopy_def Let_def)
next
  fix x m assume "map_of (Object (cleanMetadata x)) ''metadata'' = Some (JMap m)"
  note s = cleanMetadata_stripped [OF this]
  show "\<forall>f \<in> set [''creationTimestamp'', ''uid'', ''resourceVersion'', ''managedFields'',
                       ''selfLink'', ''generation'', ''ownerReferences'', ''finalizers''].
             map_of m f = None"
    using s spec_fields_removed by blast
  show "map_of m ''labels'' \<noteq> Some (JMap [])" using s by blast
  show "map_of m ''annotations'' \<noteq> Some (JMap [])" using s by blast
next
  fix f v md
  assume "f \<in> set fieldsToRemove \<and> map_of (Object observed) ''metadata'' = Some (JMap md)"
  then have "cleanMetadata (observed\<lparr>Object := AList.update ''metadata''
                 (JMap (AList.update f v md)) (Object observed)\<rparr>) = cleanMetadata observed"
    by (simp add: cleanMetadata_update_removed)
  then show "Compare desired
            (observed\<lparr>Object := AList.update ''metadata'' (JMap (AList.update f v md))
                                   (Object observed)\<rparr>)
          = Compare desired observed"
    by (simp add: Compare_def DeepCopy_def Let_def)
next
  fix k assume "k \<notin> fst ` set (Object desired)"
  then show "Compare desired (observed\<lparr>Object := AList.delete k (Object observed)\<rparr>)
          = Compare desired observed"
    by (rule Compare_delete_observed_only)
next
  fix k :: string and d e :: "(string \<times> jvalue) list" and path :: string
    and acc :: "Difference list"
  assume "k \<notin> fst ` set d"
  then show "walkMap d (AList.delete k e) path acc = walkMap d e path acc"
    by (rule walkMap_delete_observed_only)
qed

theorem Compare_ignores_observed_only_data_witness:
  "map_of (Object (cleanMetadata sample_observed)) ''metadata''
     = Some (JMap [(''name'', JStr ''m-a'')])
   \<and> map_of [(''name'', JStr ''m-a'')] ''resourceVersion'' = None
   \<and> map_of [(''name'', JStr ''m-a'')] ''annotations'' \<noteq> Some (JMap [])
   \<and> ''uid'' \<in> set fieldsToRemove
   \<and> map_of (Object sample_observed) ''metadata''
       = Some (JMap [(''name'', JStr ''m-a''), (''resourceVersion'', JStr ''7''),
                     (''annotations'', JMap [])])
   \<and> Compare sample_object
         (sample_observed\<lparr>Object := AList.update ''metadata''
             (JMap (AList.update ''uid'' (JStr ''99'')
                [(''name'', JStr ''m-a''), (''resourceVersion'', JStr ''7''),
                 (''annotations'', JMap [])]))
             (Object sample_observed)\<rparr>)
       = Compare sample_object sample_observed
   \<and> ''status'' \<notin> fst ` set (Object sample_object)
   \<and> Compare sample_object
         (sample_observed\<lparr>Object := AList.delete ''status'' (Object sample_observed)\<rparr>)
       = Compare sample_object sample_observed
   \<and> ''extra'' \<notin> fst ` set [(''key'', JStr ''a'')]
   \<and> walkMap [(''key'', JStr ''a'')]
         (AList.delete ''extra'' [(''key'', JStr ''b''), (''extra'', JStr ''x'')]) ''data'' []
       = walkMap [(''key'', JStr ''a'')] [(''key'', JStr ''b''), (''extra'', JStr ''x'')] ''data'' []"
proof -
  note inst = Compare_ignores_observed_only_data [of sample_object sample_observed]
  have h1: "map_of (Object (cleanMetadata sample_observed)) ''metadata''
              = Some (JMap [(''name'', JStr ''m-a'')])"
    by (simp add: sample_observed_def cleanMetadata_def cleanFields_def dropIfEmptyMap_def
          fieldsToRemove_def AList.delete_eq)
  have h2: "''uid'' \<in> set fieldsToRemove"
    by (simp add: fieldsToRemove_def)
  have h3: "map_of (Object sample_observed) ''metadata''
              = Some (JMap [(''name'', JStr ''m-a''), (''resourceVersion'', JStr ''7''),
                            (''annotations'', JMap [])])"
    by (simp add: sample_observed_def)
  have h4: "''status'' \<notin> fst ` set (Object sample_object)"
    by (simp add: sample_object_def)
  have h5: "''extra'' \<notin> fst ` set [(''key'', JStr ''a'')]"
    by simp
  from inst h1 have "\<forall>f \<in> set [''creationTimestamp'', ''uid'', ''resourceVersion'',
                     ''managedFields'', ''selfLink'', ''generation'', ''ownerReferences'',
                     ''finalizers'']. map_of [(''name'', JStr ''m-a'')] f = None"
    by blast
  then have c1: "map_of [(''name'', JStr ''m-a'')] ''resourceVersion'' = None"
    by simp
  from inst h1 have c1': "map_of [(''name'', JStr ''m-a'')] ''annotations'' \<noteq> Some (JMap [])"
    by blast
  from inst h2 h3 have c2: "Compare sample_object
         (sample_observed\<lparr>Object := AList.update ''metadata''
             (JMap (AList.update ''uid'' (JStr ''99'')
                [(''name'', JStr ''m-a''), (''resourceVersion'', JStr ''7''),
                 (''annotations'', JMap [])]))
             (Object sample_observed)\<rparr>)
       = Compare sample_object sample_observed"
    by blast
  from inst h4 have c3: "Compare sample_object
         (sample_observed\<lparr>Object := AList.delete ''status'' (Object sample_observed)\<rparr>)
       = Compare sample_object sample_observed"
    by blast
  from inst h5 have c4: "walkMap [(''key'', JStr ''a'')]
         (AList.delete ''extra'' [(''key'', JStr ''b''), (''extra'', JStr ''x'')]) ''data'' []
       = walkMap [(''key'', JStr ''a'')] [(''key'', JStr ''b''), (''extra'', JStr ''x'')] ''data'' []"
    by blast
  show ?thesis using h1 h2 h3 h4 h5 c1 c1' c2 c3 c4 by blast
qed

section \<open>Properties of the schema compiler\<close>

lemma props_upd [simp]: "props (upd f s) = f (props s)"
  by (simp add: upd_def)

lemma Properties_upd [simp]: "Properties (upd f s) = Properties s"
  by (simp add: upd_def)

subsection \<open>Markers and the type of the field\<close>

text \<open>
  C2 (not confirmed: the code accepts the marker). \<^verbatim>\<open>applyMarkers\<close> checks the type of
  the schema for \<^verbatim>\<open>minLength\<close> and \<^verbatim>\<open>uniqueItems\<close>, but not for \<^verbatim>\<open>minimum\<close> and
  \<^verbatim>\<open>maximum\<close>: on a schema of any type, a string included, either marker is applied as
  soon as \<^verbatim>\<open>strconv.ParseFloat\<close> accepts its value, and the bound is stored in the schema.
  On a field declared \<^verbatim>\<open>string | minimum=1\<close> the result is the string schema with
  \<^verbatim>\<open>Minimum\<close> set, whereas \<^verbatim>\<open>minLength=1\<close> on an integer and \<^verbatim>\<open>uniqueItems=true\<close> on a
  string are refused.
\<close>

theorem applyMarkers_minimum_maximum_unchecked:
  "applyMarkers lib (schema, parent)
       [\<lparr>MarkerType = MarkerTypeMinimum, Key = ''minimum'', Value = v\<rparr>] key
     = (case ParseFloat lib v of
          None \<Rightarrow> Inl (MarkerValueError MarkerTypeMinimum)
        | Some val \<Rightarrow> Inr (upd (\<lambda>f. f\<lparr>Minimum := Some val\<rparr>) schema, parent))
   \<and> applyMarkers lib (schema, parent)
       [\<lparr>MarkerType = MarkerTypeMaximum, Key = ''maximum'', Value = v\<rparr>] key
     = (case ParseFloat lib v of
          None \<Rightarrow> Inl (MarkerValueError MarkerTypeMaximum)
        | Some val \<Rightarrow> Inr (upd (\<lambda>f. f\<lparr>Maximum := Some val\<rparr>) schema, parent))
   \<and> applyMarkers sample_lib (JSONSchemaProps (emptyFields\<lparr>Type := ''string''\<rparr>) [], emptySchema)
       [\<lparr>MarkerType = MarkerTypeMinimum, Key = ''minimum'', Value = ''1''\<rparr>] ''name''
     = Inr (JSONSchemaProps (emptyFields\<lparr>Type := ''string'', Minimum := Some (Finite 1)\<rparr>) [],
            emptySchema)
   \<and> applyMarkers sample_lib (JSONSchemaProps (emptyFields\<lparr>Type := ''integer''\<rparr>) [], emptySchema)
       [\<lparr>MarkerType = MarkerTypeMinLength, Key = ''minLength'', Value = ''1''\<rparr>] ''name''
     = Inl (MarkerScopeError MarkerTypeMinLength ''integer'')
   \<and> applyMarkers sample_lib (JSONSchemaProps (emptyFields\<lparr>Type := ''string''\<rparr>) [], emptySchema)
       [\<lparr>MarkerType = MarkerTypeUniqueItems, Key = ''uniqueItems'', Value = ''true''\<rparr>] ''name''
     = Inl (MarkerScopeError MarkerTypeUniqueItems ''string'')"
  by (simp add: applyMarker_def intMarker_def sample_lib_def upd_def emptyFields_def
        split: option.split)

subsection \<open>Defaults of children and of the parent\<close>

lemma intMarker_Inr:
  "intMarker lib mt ty v schema assign = Inr s \<Longrightarrow>
     \<exists>val. s = upd (assign val) schema"
  by (auto simp: intMarker_def split: if_splits option.splits)

lemma applyMarker_cases:
  assumes "applyMarker lib marker key (schema, parent) = Inr (schema', parent')"
  shows "(MarkerType marker = MarkerTypeDefault \<longrightarrow> Default (props schema') \<noteq> None)
         \<and> (Default (props schema) \<noteq> None \<longrightarrow> Default (props schema') \<noteq> None)
         \<and> Default (props parent') = Default (props parent)
         \<and> Properties parent' = Properties parent"
proof (cases "MarkerType marker")
  case MarkerTypeMinLength
  then show ?thesis using assms
    by (auto simp: applyMarker_def Let_def split: sum.splits dest!: intMarker_Inr)
next
  case MarkerTypeMaxLength
  then show ?thesis using assms
    by (auto simp: applyMarker_def Let_def split: sum.splits dest!: intMarker_Inr)
next
  case MarkerTypeMinItems
  then show ?thesis using assms
    by (auto simp: applyMarker_def Let_def split: sum.splits dest!: intMarker_Inr)
next
  case MarkerTypeMaxItems
  then show ?thesis using assms
    by (auto simp: applyMarker_def Let_def split: sum.splits dest!: intMarker_Inr)
qed (use assms in \<open>auto simp: applyMarker_def Let_def split: sum.splits option.splits if_splits\<close>)

lemma applyMarkers_default:
  assumes "applyMarkers lib (schema, parent) markers key = Inr (schema', parent')"
  shows "((\<exists>m \<in> set markers. MarkerType m = MarkerTypeDefault) \<or> Default (props schema) \<noteq> None
            \<longrightarrow> Default (props schema') \<noteq> None)
         \<and> Default (props parent') = Default (props parent)
         \<and> Properties parent' = Properties parent"
  using assms
proof (induction markers arbitrary: schema parent)
  case Nil
  then show ?case by simp
next
  case (Cons m ms)
  from Cons.prems obtain s1 p1 where
    step: "applyMarker lib m key (schema, parent) = Inr (s1, p1)" and
    rest: "applyMarkers lib (s1, p1) ms key = Inr (schema', parent')"
    by (auto split: sum.splits)
  note a = applyMarker_cases [OF step]
  note b = Cons.IH [OF rest]
  show ?case using a b by auto
qed

lemma buildFieldFromString_parent:
  assumes "buildFieldFromString T lib t name fv parent = Inr (fs, parent')"
  shows "Default (props parent') = Default (props parent)
         \<and> Properties parent' = Properties parent"
proof -
  from assms obtain ty ms schema p1 where
    "applyMarkers lib (schema, p1) ms name = Inr (fs, parent')" and
    "Default (props p1) = Default (props parent)" and "Properties p1 = Properties parent"
    by (auto simp: buildFieldFromString_def Let_def split: sum.splits option.splits if_splits)
  then show ?thesis using applyMarkers_default by metis
qed

lemma buildFieldFromString_default:
  assumes "buildFieldFromString T lib t name fv parent = Inr (fs, parent')"
    and "ParseField T fv = Inr (ty, ms)" and "m \<in> set ms" and "MarkerType m = MarkerTypeDefault"
  shows "Default (props fs) \<noteq> None"
proof -
  from assms(1,2) obtain schema p1 where
    "applyMarkers lib (schema, p1) ms name = Inr (fs, parent')"
    by (auto simp: buildFieldFromString_def Let_def split: sum.splits)
  from applyMarkers_default [OF this] assms(3,4) show ?thesis by blast
qed

lemma buildFieldSchema_parent:
  assumes "buildFieldSchema T lib t name spec parent = Inr (fs, parent')"
  shows "Default (props parent') = Default (props parent)
         \<and> Properties parent' = Properties parent"
  using assms
  by (cases spec) (auto simp: buildFieldSchema.simps split: sum.splits
                        dest: buildFieldFromString_parent)

lemma buildSchema_loop_result:
  assumes "buildSchema_loop T lib t spec schema chd = Inr s"
  shows "\<exists>cs. list_all2 (child_of T lib t) spec cs
           \<and> Properties s = foldl (\<lambda>ps c. AList.update (fst c) (snd c) ps) (Properties schema) cs
           \<and> Default (props s) =
               (if chd \<or> (\<exists>c \<in> set cs. Default (props (snd c)) \<noteq> None)
                then Some ''{}'' else Default (props schema))"
  using assms
proof (induction spec arbitrary: schema chd)
  case Nil
  then show ?case by auto
next
  case (Cons field rest)
  from Cons.prems obtain fs p1 where
    f: "buildFieldSchema T lib t (fst field) (snd field) schema = Inr (fs, p1)" and
    r: "buildSchema_loop T lib t rest
          (JSONSchemaProps (props p1) (AList.update (fst field) fs (Properties p1)))
          (if Default (props fs) \<noteq> None then True else chd) = Inr s"
    by (auto simp: Let_def split: sum.splits)
  from Cons.IH [OF r] obtain cs where
    cs: "list_all2 (child_of T lib t) rest cs"
      "Properties s = foldl (\<lambda>ps c. AList.update (fst c) (snd c) ps)
                        (AList.update (fst field) fs (Properties p1)) cs"
      "Default (props s) =
         (if (if Default (props fs) \<noteq> None then True else chd)
               \<or> (\<exists>c \<in> set cs. Default (props (snd c)) \<noteq> None)
          then Some ''{}'' else Default (props p1))"
    by auto
  note p = buildFieldSchema_parent [OF f]
  have c0: "child_of T lib t field (fst field, fs)"
    using f by (auto simp: child_of_def)
  show ?case
  proof (intro exI [of _ "(fst field, fs) # cs"] conjI)
    show "list_all2 (child_of T lib t) (field # rest) ((fst field, fs) # cs)"
      using c0 cs(1) by simp
    show "Properties s = foldl (\<lambda>ps c. AList.update (fst c) (snd c) ps) (Properties schema)
                           ((fst field, fs) # cs)"
      using cs(2) p by simp
    show "Default (props s) =
            (if chd \<or> (\<exists>c \<in> set ((fst field, fs) # cs). Default (props (snd c)) \<noteq> None)
             then Some ''{}'' else Default (props schema))"
      using cs(3) p by auto
  qed
qed

lemma foldl_update_distinct:
  "distinct (map fst (ps @ cs)) \<Longrightarrow>
     foldl (\<lambda>ps c. AList.update (fst c) (snd c) ps) ps cs = ps @ cs"
proof (induction cs arbitrary: ps)
  case Nil
  then show ?case by simp
next
  case (Cons c cs)
  have "fst c \<notin> fst ` set ps" using Cons.prems by auto
  then have u: "AList.update (fst c) (snd c) ps = ps @ [c]"
    by (induction ps) auto
  have "distinct (map fst ((ps @ [c]) @ cs))" using Cons.prems by simp
  from Cons.IH [OF this] u show ?case by simp
qed

lemma list_all2_child_keys:
  "list_all2 (child_of T lib t) spec cs \<Longrightarrow> map fst cs = map fst spec"
  by (induction rule: list_all2_induct) (auto simp: child_of_def)

text \<open>
  C6: for every object schema that \<^verbatim>\<open>buildSchema\<close> builds from a nested map, (1) if a
  direct child field carries a \<^verbatim>\<open>default\<close> marker, the default of the object schema is the
  empty object \<^verbatim>\<open>{}\<close>; (2) the default of the object schema is \<^verbatim>\<open>{}\<close> when the schema
  of one of its direct children has a default, and it is unset when none has (the field
  names of a map are unique). The schema of a child has a default when the child carries
  the marker, when the schema that its type resolves to has one, or, for a nested map,
  when one of its own children has one.
\<close>

theorem buildSchema_parent_default:
  assumes "buildSchema T lib t spec = Inr s"
  shows "((\<exists>name fv ty ms m. (name, JStr fv) \<in> set spec \<and> ParseField T fv = Inr (ty, ms)
             \<and> m \<in> set ms \<and> MarkerType m = MarkerTypeDefault)
            \<longrightarrow> Default (props s) = Some ''{}'')
         \<and> (distinct (map fst spec) \<longrightarrow>
              Default (props s) =
                (if \<exists>c \<in> set (Properties s). Default (props (snd c)) \<noteq> None
                 then Some ''{}'' else None))"
proof -
  from assms have "buildSchema_loop T lib t spec
       (JSONSchemaProps (emptyFields\<lparr>Type := ''object''\<rparr>) []) False = Inr s"
    by simp
  from buildSchema_loop_result [OF this] obtain cs where
    cs: "list_all2 (child_of T lib t) spec cs"
      "Properties s = foldl (\<lambda>ps c. AList.update (fst c) (snd c) ps) [] cs"
      "Default (props s) =
         (if \<exists>c \<in> set cs. Default (props (snd c)) \<noteq> None then Some ''{}'' else None)"
    by (auto simp: emptyFields_def)
  have one: "Default (props s) = Some ''{}''"
    if h: "\<exists>name fv ty ms m. (name, JStr fv) \<in> set spec \<and> ParseField T fv = Inr (ty, ms)
             \<and> m \<in> set ms \<and> MarkerType m = MarkerTypeDefault"
  proof -
    from h obtain name fv ty ms m where
      f: "(name, JStr fv) \<in> set spec" "ParseField T fv = Inr (ty, ms)"
         "m \<in> set ms" "MarkerType m = MarkerTypeDefault"
      by blast
    from f(1) obtain i where i: "i < length spec" "spec ! i = (name, JStr fv)"
      by (auto simp: in_set_conv_nth)
    define c where "c = cs ! i"
    have c: "c \<in> set cs" "child_of T lib t (name, JStr fv) c"
      using i cs(1) by (auto simp: c_def list_all2_conv_all_nth)
    from c(2) obtain p p' where
      "buildFieldFromString T lib t name fv p = Inr (snd c, p')"
      by (auto simp: child_of_def buildFieldSchema.simps)
    from buildFieldFromString_default [OF this f(2,3,4)]
    have "Default (props (snd c)) \<noteq> None" .
    with c(1) cs(3) show ?thesis by auto
  qed
  have two: "Default (props s) =
                (if \<exists>c \<in> set (Properties s). Default (props (snd c)) \<noteq> None
                 then Some ''{}'' else None)"
    if d: "distinct (map fst spec)"
  proof -
    have "distinct (map fst ([] @ cs))"
      using d list_all2_child_keys [OF cs(1)] by simp
    from foldl_update_distinct [OF this] cs(2) have "Properties s = cs" by simp
    with cs(3) show ?thesis by simp
  qed
  show ?thesis using one two by blast
qed

theorem buildSchema_parent_default_witness:
  "buildSchema sample_types sample_lib \<lparr>customTypes = []\<rparr> sample_spec
     = Inr (JSONSchemaProps (emptyFields\<lparr>Type := ''object'', Default := Some ''{}''\<rparr>)
         [(''name'', JSONSchemaProps (emptyFields\<lparr>Type := ''string''\<rparr>) []),
          (''replicas'', JSONSchemaProps
             (emptyFields\<lparr>Type := ''integer'', Default := Some ''10''\<rparr>) [])])
   \<and> (''replicas'', JStr ''integer | default=10'') \<in> set sample_spec
   \<and> ParseField sample_types ''integer | default=10''
       = Inr (''integer'', [\<lparr>MarkerType = MarkerTypeDefault, Key = ''default'', Value = ''10''\<rparr>])
   \<and> distinct (map fst sample_spec)
   \<and> buildSchema sample_types sample_lib \<lparr>customTypes = []\<rparr> plain_spec
     = Inr (JSONSchemaProps (emptyFields\<lparr>Type := ''object''\<rparr>)
         [(''name'', JSONSchemaProps (emptyFields\<lparr>Type := ''string''\<rparr>) []),
          (''count'', JSONSchemaProps (emptyFields\<lparr>Type := ''integer''\<rparr>) [])])
   \<and> distinct (map fst plain_spec)
   \<and> Default (props (JSONSchemaProps (emptyFields\<lparr>Type := ''object''\<rparr>)
         [(''name'', JSONSchemaProps (emptyFields\<lparr>Type := ''string''\<rparr>) []),
          (''count'', JSONSchemaProps (emptyFields\<lparr>Type := ''integer''\<rparr>) [])])) = None"
proof -
  have b1: "buildSchema sample_types sample_lib \<lparr>customTypes = []\<rparr> sample_spec
     = Inr (JSONSchemaProps (emptyFields\<lparr>Type := ''object'', Default := Some ''{}''\<rparr>)
         [(''name'', JSONSchemaProps (emptyFields\<lparr>Type := ''string''\<rparr>) []),
          (''replicas'', JSONSchemaProps
             (emptyFields\<lparr>Type := ''integer'', Default := Some ''10''\<rparr>) [])])"
    by (simp add: sample_spec_def sample_types_def sample_parse_def buildFieldSchema.simps
          buildFieldFromString_def applyMarker_def upd_def emptyFields_def)
  have b2: "buildSchema sample_types sample_lib \<lparr>customTypes = []\<rparr> plain_spec
     = Inr (JSONSchemaProps (emptyFields\<lparr>Type := ''object''\<rparr>)
         [(''name'', JSONSchemaProps (emptyFields\<lparr>Type := ''string''\<rparr>) []),
          (''count'', JSONSchemaProps (emptyFields\<lparr>Type := ''integer''\<rparr>) [])])"
    by (simp add: plain_spec_def sample_types_def sample_parse_def buildFieldSchema.simps
          buildFieldFromString_def upd_def emptyFields_def)
  have h1: "(''replicas'', JStr ''integer | default=10'') \<in> set sample_spec"
    by (simp add: sample_spec_def)
  have h2: "ParseField sample_types ''integer | default=10''
       = Inr (''integer'', [\<lparr>MarkerType = MarkerTypeDefault, Key = ''default'', Value = ''10''\<rparr>])"
    by (simp add: sample_types_def sample_parse_def)
  have h3: "distinct (map fst sample_spec)" by (simp add: sample_spec_def)
  have h4: "distinct (map fst plain_spec)" by (simp add: plain_spec_def)
  have c2: "Default (props (JSONSchemaProps (emptyFields\<lparr>Type := ''object''\<rparr>)
         [(''name'', JSONSchemaProps (emptyFields\<lparr>Type := ''string''\<rparr>) []),
          (''count'', JSONSchemaProps (emptyFields\<lparr>Type := ''integer''\<rparr>) [])])) = None"
    using buildSchema_parent_default [OF b2] h4 by (simp add: emptyFields_def)
  show ?thesis using b1 b2 h1 h2 h3 h4 c2 by blast
qed

section \<open>Properties of the CRD\<close>

text \<open>
  C7 (not confirmed: the CRD refuses the reference). The claim says that an
  \<^verbatim>\<open>externalRef\<close> with only \<^verbatim>\<open>apiVersion\<close>, \<^verbatim>\<open>kind\<close> and a name is accepted. The schema of
  the CRD lists \<^verbatim>\<open>namespace\<close> among the required properties of \<^verbatim>\<open>metadata\<close>: the
  reference without a namespace is not valid against it, the same reference with a
  namespace is.
\<close>

theorem externalRef_namespace_required:
  "\<not> valid externalRef_schema externalRef_without_namespace
   \<and> valid externalRef_schema externalRef_with_namespace"
  by (simp add: externalRef_schema_def externalRef_without_namespace_def
        externalRef_with_namespace_def)

section \<open>Properties of collection expansion\<close>

lemma length_cartesianProduct:
  "length (cartesianProduct ds) = sizes_product ds"
proof (induction ds)
  case Nil
  show ?case by (simp add: sizes_product_def)
next
  case (Cons d ds)
  have "length (concat (map (\<lambda>v. map (\<lambda>tuple. (fst d, v) # tuple) (cartesianProduct ds)) vs))
          = length vs * sizes_product ds" for vs
    by (induction vs) (simp_all add: Cons.IH)
  then show ?case by (simp add: sizes_product_def)
qed

lemma length_item:
  "item \<in> set (cartesianProduct ds) \<Longrightarrow> length item = length ds"
  by (induction ds arbitrary: item) auto

lemma nth_concat_blocks:
  assumes "\<forall>x \<in> set xs. length (f x) = m" and "i < length xs * m"
  shows "concat (map f xs) ! i = f (xs ! (i div m)) ! (i mod m)"
  using assms
proof (induction xs arbitrary: i)
  case Nil
  then show ?case by simp
next
  case (Cons x xs)
  have m: "0 < m" using Cons.prems(2) by (cases m) auto
  show ?case
  proof (cases "i < m")
    case True
    then show ?thesis using Cons.prems by (simp add: nth_append)
  next
    case False
    then have i: "i - m < length xs * m" using Cons.prems(2) by auto
    have d: "i div m = Suc ((i - m) div m)" and r: "i mod m = (i - m) mod m"
      using False m by (simp_all add: le_div_geq le_mod_geq)
    from Cons.IH [OF _ i] Cons.prems(1) False d r show ?thesis
      by (simp add: nth_append)
  qed
qed

lemma nth_cartesianProduct_Cons:
  assumes "i < length (snd d) * sizes_product ds"
  shows "cartesianProduct (d # ds) ! i
           = (fst d, snd d ! (i div sizes_product ds))
             # cartesianProduct ds ! (i mod sizes_product ds)"
proof -
  let ?m = "sizes_product ds"
  have m: "0 < ?m" using assms by (cases ?m) auto
  have "cartesianProduct (d # ds) ! i
          = map (\<lambda>tuple. (fst d, snd d ! (i div ?m)) # tuple) (cartesianProduct ds) ! (i mod ?m)"
    using nth_concat_blocks [where m = ?m and xs = "snd d" and i = i
            and f = "\<lambda>v. map (\<lambda>tuple. (fst d, v) # tuple) (cartesianProduct ds)"] assms
    by (simp add: length_cartesianProduct)
  also have "\<dots> = (fst d, snd d ! (i div ?m)) # cartesianProduct ds ! (i mod ?m)"
    using m by (simp add: length_cartesianProduct)
  finally show ?thesis .
qed

lemma sizes_product_Cons: "sizes_product (d # ds) = length (snd d) * sizes_product ds"
  by (simp add: sizes_product_def)

lemma sizes_product_split:
  "j < length ds \<Longrightarrow>
     sizes_product ds = sizes_product (take j ds) * (length (snd (ds ! j)) * sizes_product (drop (Suc j) ds))"
proof -
  assume "j < length ds"
  then have "ds = take j ds @ ds ! j # drop (Suc j) ds"
    by (simp add: id_take_nth_drop)
  then have "sizes_product ds = sizes_product (take j ds @ ds ! j # drop (Suc j) ds)"
    by simp
  then show ?thesis by (simp add: sizes_product_def)
qed

lemma digit_mod:
  fixes i q l a :: nat
  shows "((i mod (a * (l * q))) div q) mod l = (i div q) mod l"
proof (cases "q = 0")
  case True
  then show ?thesis by simp
next
  case False
  have "i mod (a * (l * q)) = i mod (q * (a * l))"
    by (simp add: ac_simps)
  also have "\<dots> = q * (i div q mod (a * l)) + i mod q"
    by (rule mod_mult2_eq)
  finally have "(i mod (a * (l * q))) div q = (i div q) mod (a * l)"
    using False by simp
  then show ?thesis by (simp add: mod_mod_cancel)
qed

lemma nth_cartesianProduct:
  assumes "i < sizes_product ds" and "j < length ds"
  shows "cartesianProduct ds ! i ! j
           = (fst (ds ! j),
              snd (ds ! j) ! ((i div sizes_product (drop (Suc j) ds)) mod length (snd (ds ! j))))"
  using assms
proof (induction ds arbitrary: i j)
  case Nil
  then show ?case by simp
next
  case (Cons d ds)
  let ?m = "sizes_product ds"
  have i: "i < length (snd d) * ?m" using Cons.prems(1) by (simp add: sizes_product_Cons)
  then have m: "0 < ?m" by (cases ?m) auto
  note step = nth_cartesianProduct_Cons [OF i]
  show ?case
  proof (cases j)
    case 0
    have "i div ?m < length (snd d)" using i m by (simp add: less_mult_imp_div_less)
    then show ?thesis using 0 step by simp
  next
    case (Suc j')
    then have j': "j' < length ds" using Cons.prems(2) by simp
    have im: "i mod ?m < ?m" using m by simp
    have "cartesianProduct (d # ds) ! i ! j = cartesianProduct ds ! (i mod ?m) ! j'"
      using step Suc by simp
    also have "\<dots> = (fst (ds ! j'),
              snd (ds ! j') ! (((i mod ?m) div sizes_product (drop (Suc j') ds))
                                mod length (snd (ds ! j'))))"
      by (rule Cons.IH [OF im j'])
    also have "((i mod ?m) div sizes_product (drop (Suc j') ds)) mod length (snd (ds ! j'))
               = (i div sizes_product (drop (Suc j') ds)) mod length (snd (ds ! j'))"
      using sizes_product_split [OF j'] digit_mod by simp
    finally show ?thesis using Suc by simp
  qed
qed

lemma distinct_cartesianProduct:
  assumes "\<forall>d \<in> set ds. distinct (snd d)"
  shows "distinct (cartesianProduct ds)"
  using assms
proof (induction ds)
  case Nil
  show ?case by simp
next
  case (Cons d ds)
  have rest: "distinct (cartesianProduct ds)" using Cons by simp
  have "distinct vs \<Longrightarrow>
          distinct (concat (map (\<lambda>v. map (\<lambda>tuple. (fst d, v) # tuple) (cartesianProduct ds)) vs))"
    for vs
  proof (induction vs)
    case Nil
    show ?case by simp
  next
    case (Cons v vs)
    have 1: "distinct (map (\<lambda>tuple. (fst d, v) # tuple) (cartesianProduct ds))"
      using rest by (simp add: distinct_map inj_on_def)
    have 2: "distinct (concat (map (\<lambda>v. map (\<lambda>tuple. (fst d, v) # tuple) (cartesianProduct ds)) vs))"
      using Cons by simp
    have 3: "set (map (\<lambda>tuple. (fst d, v) # tuple) (cartesianProduct ds))
             \<inter> set (concat (map (\<lambda>v. map (\<lambda>tuple. (fst d, v) # tuple) (cartesianProduct ds)) vs)) = {}"
      using Cons.prems by auto
    show ?case using 1 2 3 by simp
  qed
  then show ?case using Cons.prems by simp
qed

text \<open>
  C1, as amended: for every collection resource with forEach dimensions of sizes
  \<open>n\<^sub>1, \<dots>, n\<^sub>k\<close>, the expansion yields exactly \<open>n\<^sub>1 * \<dots> * n\<^sub>k\<close> items, each binding one
  value per dimension; the items are enumerated lexicographically by dimension position,
  preserving the order of each list: item number \<open>i\<close> binds the iterator of dimension \<open>j\<close>
  to the element at position \<open>(i div (n\<^bsub>j+1\<^esub> * \<dots> * n\<^sub>k)) mod n\<^sub>j\<close> of its list; and the
  iterator tuples are pairwise distinct when no dimension list holds a value twice.
\<close>

theorem cartesianProduct_expansion:
  "length (cartesianProduct ds) = sizes_product ds
   \<and> (\<forall>item \<in> set (cartesianProduct ds). length item = length ds)
   \<and> (\<forall>i j. i < sizes_product ds \<and> j < length ds \<longrightarrow>
          cartesianProduct ds ! i ! j
            = (fst (ds ! j),
               snd (ds ! j) ! ((i div sizes_product (drop (Suc j) ds)) mod length (snd (ds ! j)))))
   \<and> ((\<forall>d \<in> set ds. distinct (snd d)) \<longrightarrow> distinct (cartesianProduct ds))"
  using length_cartesianProduct [of ds] length_item [of _ ds] nth_cartesianProduct [of _ ds]
    distinct_cartesianProduct [of ds]
  by blast

theorem cartesianProduct_expansion_witness:
  "cartesianProduct regions_tiers
     = [[(''region'', ''us''), (''tier'', ''web'')], [(''region'', ''us''), (''tier'', ''api'')],
        [(''region'', ''eu''), (''tier'', ''web'')], [(''region'', ''eu''), (''tier'', ''api'')]]
   \<and> length (cartesianProduct regions_tiers) = sizes_product regions_tiers
   \<and> sizes_product regions_tiers = 4
   \<and> (1::nat) < sizes_product regions_tiers \<and> (1::nat) < length regions_tiers
   \<and> cartesianProduct regions_tiers ! 1 ! 1 = (''tier'', ''api'')
   \<and> distinct [''us'', ''eu''] \<and> distinct [''web'', ''api'']
   \<and> distinct (cartesianProduct regions_tiers)"
proof -
  note inst = cartesianProduct_expansion [of regions_tiers]
  have e: "cartesianProduct regions_tiers
     = [[(''region'', ''us''), (''tier'', ''web'')], [(''region'', ''us''), (''tier'', ''api'')],
        [(''region'', ''eu''), (''tier'', ''web'')], [(''region'', ''eu''), (''tier'', ''api'')]]"
    by (simp add: regions_tiers_def)
  have s: "sizes_product regions_tiers = 4"
    by (simp add: regions_tiers_def sizes_product_def)
  have h1: "(1::nat) < sizes_product regions_tiers" using s by simp
  have h2: "(1::nat) < length regions_tiers" by (simp add: regions_tiers_def)
  have h3: "\<forall>d \<in> set regions_tiers. distinct (snd d)" by (simp add: regions_tiers_def)
  have h4: "distinct [''us'', ''eu'']" "distinct [''web'', ''api'']" by simp_all
  from inst have c1: "length (cartesianProduct regions_tiers) = sizes_product regions_tiers"
    by blast
  from inst h1 h2 have "cartesianProduct regions_tiers ! 1 ! 1
      = (fst (regions_tiers ! 1),
         snd (regions_tiers ! 1)
           ! ((1 div sizes_product (drop (Suc 1) regions_tiers)) mod length (snd (regions_tiers ! 1))))"
    by blast
  then have c2: "cartesianProduct regions_tiers ! 1 ! 1 = (''tier'', ''api'')"
    by (simp add: regions_tiers_def sizes_product_def)
  from inst h3 have c3: "distinct (cartesianProduct regions_tiers)" by blast
  show ?thesis using e s h1 h2 h4 c1 c2 c3 by blast
qed

text \<open>
  C1 as stated fails where a dimension list holds a value twice: the dimension
  \<^verbatim>\<open>value\<close> over \<^verbatim>\<open>["a", "a"]\<close> expands to two items with the same iterator tuple.
\<close>

theorem cartesianProduct_repeated_value_counterexample:
  "cartesianProduct repeated_value = [[(''value'', ''a'')], [(''value'', ''a'')]]
   \<and> \<not> distinct (cartesianProduct repeated_value)"
  by (simp add: repeated_value_def)

section \<open>Properties of the forEach dimensions\<close>

lemma compileDimension_Inr:
  assumes "compileDimension env iterators d = Inr b"
  shows "b = fst d
         \<and> (\<forall>x \<in> set (freeVars (snd d)). x \<in> set env \<and> (x \<in> set iterators \<longrightarrow> x = fst d))
         \<and> resultType (snd d) = ListType"
proof -
  from assms have
    1: "filter (\<lambda>x. x \<in> set iterators \<and> x \<noteq> fst d) (freeVars (snd d)) = []" and
    2: "filter (\<lambda>x. x \<notin> set env) (freeVars (snd d)) = []" and
    3: "resultType (snd d) = ListType" and 4: "b = fst d"
    by (auto simp: compileDimension_def compile_def split: list.splits sum.splits if_splits)
  from 1 2 have "\<forall>x \<in> set (freeVars (snd d)). x \<in> set env \<and> (x \<in> set iterators \<longrightarrow> x = fst d)"
    by (auto simp: filter_empty_conv)
  with 3 4 show ?thesis by blast
qed

lemma compileDimensions_Inr:
  assumes "compileDimensions env iterators ds = Inr bs"
  shows "bs = map fst ds
         \<and> (\<forall>d \<in> set ds. \<forall>x \<in> set (freeVars (snd d)).
               x \<in> set env \<and> (x \<in> set iterators \<longrightarrow> x = fst d))
         \<and> (\<forall>d \<in> set ds. resultType (snd d) = ListType)"
  using assms
proof (induction ds arbitrary: bs)
  case Nil
  then show ?case by simp
next
  case (Cons d ds)
  from Cons.prems obtain b bs' where
    d: "compileDimension env iterators d = Inr b" and
    r: "compileDimensions env iterators ds = Inr bs'" and bs: "bs = b # bs'"
    by (auto split: sum.splits)
  note a = compileDimension_Inr [OF d]
  note b = Cons.IH [OF r]
  have 1: "bs = map fst (d # ds)" using a b bs by simp
  have 2: "\<forall>d' \<in> set (d # ds). \<forall>x \<in> set (freeVars (snd d')).
               x \<in> set env \<and> (x \<in> set iterators \<longrightarrow> x = fst d')"
  proof
    fix d' assume "d' \<in> set (d # ds)"
    then have "d' = d \<or> d' \<in> set ds" by simp
    then show "\<forall>x \<in> set (freeVars (snd d')).
               x \<in> set env \<and> (x \<in> set iterators \<longrightarrow> x = fst d')"
      using a b by blast
  qed
  have 3: "\<forall>d' \<in> set (d # ds). resultType (snd d') = ListType"
  proof
    fix d' assume "d' \<in> set (d # ds)"
    then have "d' = d \<or> d' \<in> set ds" by simp
    then show "resultType (snd d') = ListType" using a b by blast
  qed
  show ?case using 1 2 3 by blast
qed

text \<open>
  C8: for every resource with forEach dimensions, a dimension whose expression
  references another iterator of the same resource is rejected when the graph is built;
  and when the dimensions are accepted, every expression only mentions variables of the
  environment that the resource had before its iterators were added (no dimension sees
  the iterator of a sibling), every expression is list-typed, and the iterators are
  bound in declaration order.
\<close>

theorem compileForEach_rejects_cross_reference:
  "((\<exists>d \<in> set ds. \<exists>x \<in> set (freeVars (snd d)). x \<in> fst ` set ds \<and> x \<noteq> fst d)
      \<longrightarrow> (\<exists>e. compileForEach env ds = Inl e))
   \<and> (\<forall>env'. compileForEach env ds = Inr env' \<longrightarrow>
         env' = env @ map fst ds
         \<and> (\<forall>d \<in> set ds. set (freeVars (snd d)) \<subseteq> set env)
         \<and> (\<forall>d \<in> set ds. resultType (snd d) = ListType))"
proof (intro conjI impI allI)
  assume x: "\<exists>d \<in> set ds. \<exists>x \<in> set (freeVars (snd d)). x \<in> fst ` set ds \<and> x \<noteq> fst d"
  show "\<exists>e. compileForEach env ds = Inl e"
  proof (cases "compileDimensions env (map fst ds) ds")
    case (Inl e)
    then show ?thesis by (simp add: compileForEach_def)
  next
    case (Inr bs)
    from x obtain d x' where
      dx: "d \<in> set ds" "x' \<in> set (freeVars (snd d))" "x' \<in> fst ` set ds" "x' \<noteq> fst d"
      by blast
    from dx(3) have "x' \<in> set (map fst ds)" by simp
    with compileDimensions_Inr [OF Inr] dx(1,2) have "x' = fst d" by blast
    with dx(4) have False by simp
    then show ?thesis ..
  qed
next
  fix env' assume ok: "compileForEach env ds = Inr env'"
  then obtain bs where bs: "compileDimensions env (map fst ds) ds = Inr bs" "env' = env @ bs"
    by (auto simp: compileForEach_def split: sum.splits)
  note r = compileDimensions_Inr [OF bs(1)]
  have "bs = map fst ds" using r by blast
  then show "env' = env @ map fst ds" using bs(2) by simp
  show "\<forall>d \<in> set ds. set (freeVars (snd d)) \<subseteq> set env" using r by blast
  show "\<forall>d \<in> set ds. resultType (snd d) = ListType" using r by blast
qed

theorem compileForEach_rejects_cross_reference_witness:
  "''element'' \<in> set (freeVars (snd (cross_reference_dims ! 1)))
   \<and> ''element'' \<in> fst ` set cross_reference_dims
   \<and> ''element'' \<noteq> fst (cross_reference_dims ! 1)
   \<and> compileForEach [''schema''] cross_reference_dims
       = Inl (IteratorCrossReference ''derived'' ''element'')
   \<and> compileForEach [''schema''] cartesian_dims = Inr [''schema'', ''cidr'', ''vpcID'']
   \<and> [''schema'', ''cidr'', ''vpcID''] = [''schema''] @ map fst cartesian_dims"
proof -
  note inst = compileForEach_rejects_cross_reference
  have h1: "''element'' \<in> set (freeVars (snd (cross_reference_dims ! 1)))"
    and h2: "''element'' \<in> fst ` set cross_reference_dims"
    and h3: "''element'' \<noteq> fst (cross_reference_dims ! 1)"
    and h0: "cross_reference_dims ! 1 \<in> set cross_reference_dims"
    by (simp_all add: cross_reference_dims_def)
  from h0 h1 h2 h3 have "\<exists>d \<in> set cross_reference_dims. \<exists>x \<in> set (freeVars (snd d)).
       x \<in> fst ` set cross_reference_dims \<and> x \<noteq> fst d"
    by blast
  with inst [of cross_reference_dims "[''schema'']"]
  have "\<exists>e. compileForEach [''schema''] cross_reference_dims = Inl e" by blast
  moreover have "compileForEach [''schema''] cross_reference_dims
       = Inl (IteratorCrossReference ''derived'' ''element'')"
    by (simp add: compileForEach_def compileDimension_def compile_def cross_reference_dims_def)
  moreover have ok: "compileForEach [''schema''] cartesian_dims = Inr [''schema'', ''cidr'', ''vpcID'']"
    by (simp add: compileForEach_def compileDimension_def compile_def cartesian_dims_def)
  moreover from inst [of cartesian_dims "[''schema'']"] ok
  have "[''schema'', ''cidr'', ''vpcID''] = [''schema''] @ map fst cartesian_dims" by blast
  ultimately show ?thesis using h1 h2 h3 by blast
qed

section \<open>Properties of Compare on the store\<close>

lemma deref_prefix: "prefix h h' \<Longrightarrow> deref h a = Some ob \<Longrightarrow> deref h' a = Some ob"
  by (auto simp: deref_def prefix_def nth_append split: if_splits)

lemma valueOf_prefix:
  shows "prefix h h' \<Longrightarrow> valueOf n h v = Some x \<Longrightarrow> valueOf n h' v = Some x"
    and "prefix h h' \<Longrightarrow> valuesOf n h vs = Some xs \<Longrightarrow> valuesOf n h' vs = Some xs"
proof (induction n h v and n h vs arbitrary: x and xs rule: valueOf_valuesOf.induct)
  case (1 h v)
  then show ?case by simp
next
  case (2 n h v)
  note p = \<open>prefix h h'\<close>
  note r = \<open>valueOf (Suc n) h v = Some x\<close>
  show ?case
  proof (cases v)
    case (HMapRef a)
    with r obtain kvs ys where
      d: "deref h a = Some (HMap kvs)" and vs: "valuesOf n h (map snd kvs) = Some ys"
      and x: "x = JMap (zip (map fst kvs) ys)"
      by (auto split: option.splits hobject.splits)
    from 2(1) [OF HMapRef d refl p vs] have "valuesOf n h' (map snd kvs) = Some ys" .
    with deref_prefix [OF p d] HMapRef x show ?thesis by simp
  next
    case (HSliceRef a)
    with r obtain ys zs where
      d: "deref h a = Some (HSlice ys)" and vs: "valuesOf n h ys = Some zs"
      and x: "x = JList zs"
      by (auto split: option.splits hobject.splits)
    from 2(2) [OF HSliceRef d refl p vs] have "valuesOf n h' ys = Some zs" .
    with deref_prefix [OF p d] HSliceRef x show ?thesis by simp
  qed (use r in auto)
next
  case (3 n h)
  then show ?case by simp
next
  case (4 n h x xs)
  then show ?case by (auto split: option.splits)
qed

lemma fresh_mono: "k \<le> k' \<Longrightarrow> fresh k' v \<Longrightarrow> fresh k v"
  by (cases v) (simp_all add: fresh_def)

lemma prefix_length: "prefix h h' \<Longrightarrow> length h \<le> length h'"
  by (auto simp: prefix_def)

lemma deepCopy_fresh:
  shows "deepCopyValue n h v = Some (h', v') \<Longrightarrow>
           prefix h h' \<and> fresh (length h) v'
           \<and> (\<forall>a. v' = HMapRef a \<longrightarrow> (\<exists>kvs. deref h' a = Some (HMap kvs)) \<and> fresh_at (length h) h' a)"
    and "deepCopyValues n h vs = Some (h', vs') \<Longrightarrow>
           prefix h h' \<and> list_all (fresh (length h)) vs'"
proof (induction n h v and n h vs arbitrary: h' v' and h' vs' rule: deepCopyValue_deepCopyValues.induct)
  case (1 h v)
  then show ?case by simp
next
  case (2 n h v)
  note r = \<open>deepCopyValue (Suc n) h v = Some (h', v')\<close>
  show ?case
  proof (cases v)
    case (HMapRef a)
    with r obtain kvs h1 vs1 where
      d: "deref h a = Some (HMap kvs)" and c: "deepCopyValues n h (map snd kvs) = Some (h1, vs1)"
      and h': "h' = h1 @ [HMap (zip (map fst kvs) vs1)]" and v': "v' = HMapRef (length h1)"
      by (auto split: option.splits hobject.splits)
    from 2(1) [OF HMapRef d refl c] have ih: "prefix h h1" "list_all (fresh (length h)) vs1"
      by simp_all
    have 1: "prefix h h'" using ih(1) h' by (auto simp: prefix_def)
    have 2: "fresh (length h) v'" using v' prefix_length [OF ih(1)] by (simp add: fresh_def)
    have "list_all (\<lambda>kv. fresh (length h) (snd kv)) (zip (map fst kvs) vs1)"
      using ih(2) by (auto simp: list_all_iff dest: set_zip_rightD)
    then have 3: "(\<exists>kvs. deref h' (length h1) = Some (HMap kvs)) \<and> fresh_at (length h) h' (length h1)"
      using h' by (simp add: fresh_at_def deref_def)
    show ?thesis using 1 2 3 v' by simp
  next
    case (HSliceRef a)
    with r obtain xs h1 vs1 where
      d: "deref h a = Some (HSlice xs)" and c: "deepCopyValues n h xs = Some (h1, vs1)"
      and h': "h' = h1 @ [HSlice vs1]" and v': "v' = HSliceRef (length h1)"
      by (auto split: option.splits hobject.splits)
    from 2(2) [OF HSliceRef d refl c] have ih: "prefix h h1" by simp
    have 1: "prefix h h'" using ih h' by (auto simp: prefix_def)
    have 2: "fresh (length h) v'" using v' prefix_length [OF ih] by (simp add: fresh_def)
    show ?thesis using 1 2 v' by simp
  qed (use r in \<open>auto simp: fresh_def\<close>)
next
  case (3 n h)
  then show ?case by simp
next
  case (4 n h x xs)
  note r = \<open>deepCopyValues n h (x # xs) = Some (h', vs')\<close>
  from r obtain h1 x' xs' where
    c1: "deepCopyValue n h x = Some (h1, x')" and c2: "deepCopyValues n h1 xs = Some (h', xs')"
    and vs': "vs' = x' # xs'"
    by (auto split: option.splits)
  from 4(1) [OF c1] have a: "prefix h h1" "fresh (length h) x'" by simp_all
  from 4(2) [OF c1] c2 have b: "prefix h1 h'" "list_all (fresh (length h1)) xs'"
    by simp_all
  have "list_all (fresh (length h)) xs'"
    using b(2) fresh_mono [OF prefix_length [OF a(1)]] by (auto simp: list_all_iff)
  then show ?case using a b(1) vs' by (auto intro: prefix_order.trans)
qed

lemma set_dropIfEmptyMap_store: "set (dropIfEmptyMap_store h key md) \<subseteq> set md"
  by (auto simp: dropIfEmptyMap_store_def AList.delete_eq
           split: option.splits hvalue.splits hobject.splits if_splits)

lemma set_foldl_delete: "set (foldl (\<lambda>m field. AList.delete field m) md fs) \<subseteq> set md"
proof (induction fs arbitrary: md)
  case Nil
  show ?case by simp
next
  case (Cons f fs)
  have "set (AList.delete f md) \<subseteq> set md" by (auto simp: AList.delete_eq)
  with Cons.IH [of "AList.delete f md"] show ?case by auto
qed

lemma set_cleanFields_store: "set (cleanFields_store h md) \<subseteq> set md"
proof -
  let ?a = "dropIfEmptyMap_store h ''annotations'' md"
  let ?l = "dropIfEmptyMap_store h ''labels'' ?a"
  have "set (cleanFields_store h md) \<subseteq> set ?l"
    unfolding cleanFields_store_def by (rule set_foldl_delete)
  also have "\<dots> \<subseteq> set ?a" by (rule set_dropIfEmptyMap_store)
  also have "\<dots> \<subseteq> set md" by (rule set_dropIfEmptyMap_store)
  finally show ?thesis .
qed

lemma cleanMetadata_store_cases:
  "cleanMetadata_store h obj = h
   \<or> (\<exists>object m metadata.
         deref h obj = Some (HMap object) \<and> map_of object ''metadata'' = Some (HMapRef m)
         \<and> deref h m = Some (HMap metadata)
         \<and> cleanMetadata_store h obj = h[m := HMap (cleanFields_store h metadata)])"
  by (simp add: cleanMetadata_store_def split: option.split hobject.split hvalue.split)

lemma cleanMetadata_store_frame:
  assumes "fresh_at k h obj"
  shows "length (cleanMetadata_store h obj) = length h
         \<and> (\<forall>a < k. cleanMetadata_store h obj ! a = h ! a)"
proof -
  consider (same) "cleanMetadata_store h obj = h"
    | (cleaned) object m metadata where
      "deref h obj = Some (HMap object)" "map_of object ''metadata'' = Some (HMapRef m)"
      "deref h m = Some (HMap metadata)"
      "cleanMetadata_store h obj = h[m := HMap (cleanFields_store h metadata)]"
    using cleanMetadata_store_cases [of h obj] by blast
  then show ?thesis
  proof cases
  case same
  then show ?thesis by simp
next
  case (cleaned object m metadata)
  have "(''metadata'', HMapRef m) \<in> set object"
    using cleaned(2) by (rule map_of_SomeD)
  then have "fresh k (HMapRef m)"
    using assms cleaned(1) by (auto simp: fresh_at_def list_all_iff)
  then have "k \<le> m" by (simp add: fresh_def)
  then show ?thesis using cleaned(4) by simp
qed
qed

lemma cleanMetadata_store_fresh_at:
  assumes "fresh_at k h b"
  shows "fresh_at k (cleanMetadata_store h obj) b"
proof -
  consider (same) "cleanMetadata_store h obj = h"
    | (cleaned) object m metadata where
      "deref h obj = Some (HMap object)" "map_of object ''metadata'' = Some (HMapRef m)"
      "deref h m = Some (HMap metadata)"
      "cleanMetadata_store h obj = h[m := HMap (cleanFields_store h metadata)]"
    using cleanMetadata_store_cases [of h obj] by blast
  then show ?thesis
  proof cases
  case same
  then show ?thesis using assms by simp
next
  case (cleaned object m metadata)
  show ?thesis
  proof (cases "b = m")
    case True
    have "list_all (\<lambda>kv. fresh k (snd kv)) metadata"
      using assms cleaned(3) True by (simp add: fresh_at_def)
    then have "list_all (\<lambda>kv. fresh k (snd kv)) (cleanFields_store h metadata)"
      using set_cleanFields_store [of h metadata] by (auto simp: list_all_iff)
    then show ?thesis using cleaned(3,4) True
      by (simp add: fresh_at_def deref_def split: if_splits)
  next
    case False
    then have "deref (cleanMetadata_store h obj) b = deref h b"
      using cleaned(4) by (simp add: deref_def)
    then show ?thesis using assms by (simp add: fresh_at_def)
  qed
qed
qed

lemma fresh_at_mono: "k \<le> k' \<Longrightarrow> fresh_at k' h a \<Longrightarrow> fresh_at k h a"
  by (auto simp: fresh_at_def list_all_iff intro: fresh_mono split: option.splits hobject.splits)

lemma fresh_at_prefix:
  assumes "prefix h h'" and "deref h a = Some ob" and "fresh_at k h a"
  shows "fresh_at k h' a"
  using deref_prefix [OF assms(1,2)] assms(2,3) by (simp add: fresh_at_def)

lemma prefixI_nth:
  assumes "length h \<le> length h'" and "\<forall>a < length h. h' ! a = h ! a"
  shows "prefix h h'"
proof -
  have "take (length h) h' = h"
    using assms by (intro nth_equalityI) simp_all
  then have "h' = h @ drop (length h) h'"
    by (metis append_take_drop_id)
  then show ?thesis by (auto simp: prefix_def)
qed

lemma prefix_nth: "prefix h h' \<Longrightarrow> a < length h \<Longrightarrow> h' ! a = h ! a"
  by (auto simp: prefix_def nth_append)

text \<open>
  C10: \<open>Compare\<close> leaves both of its argument objects unchanged. On the store, where
  \<^verbatim>\<open>cleanMetadata\<close> deletes from the metadata map in place: when \<open>Compare\<close> returns, every
  map and slice that existed before the call is what it was (the store after the call is
  the store before it followed by the objects of the two copies), so every value that
  could be read before the call, the desired and the observed object with their
  server-managed metadata included, reads the same after it.
\<close>

theorem Compare_store_arguments_unchanged:
  assumes "Compare_store n h desired observed = Some (differences, h')"
  shows "prefix h h'
         \<and> (\<forall>a < length h. h' ! a = h ! a)
         \<and> (\<forall>m v x. valueOf m h v = Some x \<longrightarrow> valueOf m h' v = Some x)"
proof -
  from assms obtain h1 dc h2 oc where
    c1: "deepCopyValue n h (HMapRef desired) = Some (h1, HMapRef dc)" and
    c2: "deepCopyValue n h1 (HMapRef observed) = Some (h2, HMapRef oc)" and
    h': "h' = cleanMetadata_store (cleanMetadata_store h2 dc) oc"
    by (auto simp: Compare_store_def Let_def split: option.splits hvalue.splits)
  from deepCopy_fresh(1) [OF c1] obtain kvs1 where
    p1: "prefix h h1" and d1: "deref h1 dc = Some (HMap kvs1)" and f1: "fresh_at (length h) h1 dc"
    by auto
  from deepCopy_fresh(1) [OF c2] have
    p2: "prefix h1 h2" and f2: "fresh_at (length h1) h2 oc"
    by auto
  have p: "prefix h h2" using p1 p2 by (rule prefix_order.trans)
  have g1: "fresh_at (length h) h2 dc" using fresh_at_prefix [OF p2 d1 f1] .
  have g2: "fresh_at (length h) h2 oc"
    using fresh_at_mono [OF prefix_length [OF p1] f2] .
  let ?h3 = "cleanMetadata_store h2 dc"
  note s3 = cleanMetadata_store_frame [OF g1]
  have g3: "fresh_at (length h) ?h3 oc" using g2 by (rule cleanMetadata_store_fresh_at)
  note s4 = cleanMetadata_store_frame [OF g3]
  have len: "length h \<le> length h'"
    using s3 s4 h' prefix_length [OF p] by simp
  have nth: "\<forall>a < length h. h' ! a = h ! a"
    using s3 s4 h' prefix_nth [OF p] by simp
  have pre: "prefix h h'" using len nth by (rule prefixI_nth)
  show ?thesis using pre nth valueOf_prefix(1) [OF pre] by blast
qed


theorem Compare_store_arguments_unchanged_witness:
  "Compare_store 3 sample_store 2 5 = Some ([], sample_store @ sample_copies)
   \<and> prefix sample_store (sample_store @ sample_copies)
   \<and> (sample_store @ sample_copies) ! 1
       = HMap [(''name'', HStr ''m-a''), (''uid'', HStr ''1234''), (''labels'', HMapRef 0)]
   \<and> valueOf 3 sample_store (HMapRef 2)
       = Some (JMap [(''kind'', JStr ''ConfigMap''),
            (''metadata'', JMap [(''name'', JStr ''m-a''), (''uid'', JStr ''1234''),
                                (''labels'', JMap [])])])
   \<and> valueOf 3 (sample_store @ sample_copies) (HMapRef 2)
       = Some (JMap [(''kind'', JStr ''ConfigMap''),
            (''metadata'', JMap [(''name'', JStr ''m-a''), (''uid'', JStr ''1234''),
                                (''labels'', JMap [])])])
   \<and> cleanMetadata_store sample_store 2 ! 1 = HMap [(''name'', HStr ''m-a'')]"
proof -
  have run: "Compare_store 3 sample_store 2 5 = Some ([], sample_store @ sample_copies)"
    by code_simp
  note inst = Compare_store_arguments_unchanged [OF run]
  have v: "valueOf 3 sample_store (HMapRef 2)
       = Some (JMap [(''kind'', JStr ''ConfigMap''),
            (''metadata'', JMap [(''name'', JStr ''m-a''), (''uid'', JStr ''1234''),
                                (''labels'', JMap [])])])"
    by code_simp
  have one: "(1::nat) < length sample_store" by (simp add: sample_store_def)
  have "sample_store ! 1
       = HMap [(''name'', HStr ''m-a''), (''uid'', HStr ''1234''), (''labels'', HMapRef 0)]"
    by (simp add: sample_store_def)
  with inst one have c1: "(sample_store @ sample_copies) ! 1
       = HMap [(''name'', HStr ''m-a''), (''uid'', HStr ''1234''), (''labels'', HMapRef 0)]"
    by metis
  from inst v have c2: "valueOf 3 (sample_store @ sample_copies) (HMapRef 2)
       = Some (JMap [(''kind'', JStr ''ConfigMap''),
            (''metadata'', JMap [(''name'', JStr ''m-a''), (''uid'', JStr ''1234''),
                                (''labels'', JMap [])])])"
    by blast
  have m: "cleanMetadata_store sample_store 2 ! 1 = HMap [(''name'', HStr ''m-a'')]"
    by code_simp
  show ?thesis using run inst v c1 c2 m by blast
qed

end
